theory Spec2Isabelle
  imports Complex_Main
begin

section \<open>Errors\<close>

text \<open>
  Every error value the modelled functions can return. The sentinel errors are the
  package-level variables of the source; \<open>EOF\<close> is \<open>io.EOF\<close>, which \<open>bytes.Buffer.ReadRune\<close>
  returns on an empty buffer. \<open>ErrMissingCloseParen\<close>, \<open>ErrEmptyParens\<close> and
  \<open>ErrMissingWhitespace\<close> are used by \<open>syntax.go\<close>; they are sentinel errors like the others.
  The remaining constructors stand for errors built in place:
  \<^item> \<open>InvalidEscape r\<close>: \<open>errors.New("invalid escape character: " + string(r))\<close>;
  \<^item> \<open>NumErrorSyntax\<close>, \<open>NumErrorRange\<close>: the \<open>*strconv.NumError\<close> of \<open>strconv.ParseUint\<close>
    (\<open>ErrSyntax\<close>, \<open>ErrRange\<close>) with the offending text;
  \<^item> \<open>SubscriptOutOfBounds i\<close>: \<open>errors.New("subscript out of bounds: " + strconv.Itoa(i))\<close>;
  \<^item> \<open>Expected2Or3Arguments\<close>: \<open>errors.New("expected 2 or 3 arguments")\<close>;
  \<^item> \<open>ArgumentTooBig\<close>: \<open>errors.New("argument too big")\<close>;
  \<^item> \<open>CannotComputeGamma\<close>: \<open>errors.New("cannot compute gamma result")\<close>;
  \<^item> \<open>Panic msg\<close>: a run-time panic of the Go program (an index or slice out of range, a
    division by zero inside \<open>math/big\<close>, an explicit \<open>panic\<close>).
\<close>

type_synonym rune = int

datatype error =
    EOF
  | ErrEOFAfterLineContinuation
  | ErrMissingOpenCurlyBrace
  | ErrUnexpectedCloseParen
  | ErrEscapeCodeUnderflow
  | ErrMissingEndQuote
  | ErrMissingCloseParen
  | ErrEmptyParens
  | ErrMissingWhitespace
  | InvalidEscape rune
  | NumErrorSyntax "rune list"
  | NumErrorRange "rune list"
  | SubscriptOutOfBounds int
  | Expected2Or3Arguments
  | ArgumentTooBig
  | CannotComputeGamma
  | Panic string

section \<open>Values\<close>

text \<open>
  Modelled from the spec: the \<open>Value\<close> type and its constructors are declared outside the
  files at hand. A Value is a string; a boolean is the empty string (false) or a fixed
  non-empty literal (true).
\<close>

type_synonym Value = string

definition StringValue :: "string \<Rightarrow> Value" where
  "StringValue s = s"

definition NewValueBool :: "bool \<Rightarrow> Value" where
  "NewValueBool b = (if b then ''true'' else '''')"

definition emptyValue :: Value where
  "emptyValue = ''''"

definition Value_String :: "Value \<Rightarrow> string" where
  "Value_String v = v"

definition Value_Bool :: "Value \<Rightarrow> bool" where
  "Value_Bool v \<longleftrightarrow> v \<noteq> []"

section \<open>Go indexing and slicing\<close>

text \<open>
  \<open>xs[i]\<close> and \<open>xs[lo:hi]\<close> of Go, with the run-time bounds checks written out: an index or
  a slice out of range panics.
\<close>

definition go_index :: "'a list \<Rightarrow> int \<Rightarrow> error + 'a" where
  "go_index xs i =
     (if 0 \<le> i \<and> i < int (length xs) then Inr (xs ! nat i)
      else Inl (Panic ''index out of range''))"

definition go_slice :: "'a list \<Rightarrow> int \<Rightarrow> int \<Rightarrow> error + 'a list" where
  "go_slice xs lo hi =
     (if 0 \<le> lo \<and> lo \<le> hi \<and> hi \<le> int (length xs)
      then Inr (take (nat (hi - lo)) (drop (nat lo) xs))
      else Inl (Panic ''slice bounds out of range''))"

section \<open>std_ops.go: Subscript\<close>

definition Subscript :: "string list \<Rightarrow> int \<Rightarrow> error + Value" where
  "Subscript strings index =
     (if index < 0 \<or> index \<ge> int (length strings)
      then Inl (SubscriptOutOfBounds index)
      else (case go_index strings index of
              Inl e \<Rightarrow> Inl e
            | Inr s \<Rightarrow> Inr (StringValue s)))"

section \<open>std_string: Substr\<close>

text \<open>
  \<open>Substr(s string, start int, e ...int)\<close>: the variadic tail \<open>e\<close> is the list of the
  trailing arguments. A Go string is a sequence of bytes, and \<open>len\<close> counts bytes.
\<close>

definition Substr :: "string \<Rightarrow> int \<Rightarrow> int list \<Rightarrow> error + string" where
  "Substr s start e =
     (if length s = 0 then Inr ''''
      else if length e > 1 then Inl Expected2Or3Arguments
      else
        let end = (if length e = 1 then e ! 0 else int (length s));
            start1 = (if start < 0 then 0
                      else if start > int (length s) then int (length s)
                      else start);
            end1 = (if end < start1 then start1
                    else if end > int (length s) then int (length s)
                    else end)
        in go_slice s start1 end1)"

text \<open>
  The clamping of \<open>Substr\<close> in closed form: \<open>start\<close> into \<open>[0, len(s)]\<close>, then \<open>end\<close>
  into \<open>[start, len(s)]\<close>.
\<close>

definition clamp_start :: "string \<Rightarrow> int \<Rightarrow> int" where
  "clamp_start s start = max 0 (min start (int (length s)))"

definition clamp_end :: "string \<Rightarrow> int \<Rightarrow> int \<Rightarrow> int" where
  "clamp_end s start end = max (clamp_start s start) (min end (int (length s)))"

section \<open>condition.go: Condition and NotCondition\<close>

text \<open>
  A \<open>Runnable\<close> is run against a \<open>Runner\<close> and returns a Value or a Breakout; it may change
  the runner, so the runner is passed through. Both interfaces are declared outside the
  files at hand: the runner state \<open>'r\<close> and the breakout \<open>'b\<close> are type parameters.
\<close>

type_synonym ('r, 'b) Runnable = "'r \<Rightarrow> ('b + Value) \<times> 'r"

text \<open>The loop \<open>for i := 1; i < len(c); i++\<close> of \<open>Condition.Run\<close>, over the operands \<open>c[1:]\<close>.\<close>

fun Condition_rest :: "string \<Rightarrow> ('r, 'b) Runnable list \<Rightarrow> 'r \<Rightarrow> ('b + Value) \<times> 'r" where
  "Condition_rest str [] r = (Inr (NewValueBool True), r)"
| "Condition_rest str (x # xs) r =
     (case x r of
        (Inl bo, r1) \<Rightarrow> (Inl bo, r1)
      | (Inr val, r1) \<Rightarrow>
          if Value_String val \<noteq> str then (Inr emptyValue, r1)
          else Condition_rest str xs r1)"

definition Condition_Run :: "('r, 'b) Runnable list \<Rightarrow> 'r \<Rightarrow> ('b + Value) \<times> 'r" where
  "Condition_Run c r =
     (case c of
        [] \<Rightarrow> (Inr (NewValueBool True), r)
      | [x] \<Rightarrow> x r
      | x # xs \<Rightarrow>
          (case x r of
             (Inl bo, r1) \<Rightarrow> (Inl bo, r1)
           | (Inr first, r1) \<Rightarrow> Condition_rest (Value_String first) xs r1))"

definition NotCondition_Run :: "('r, 'b) Runnable list \<Rightarrow> 'r \<Rightarrow> ('b + Value) \<times> 'r" where
  "NotCondition_Run n r =
     (case Condition_Run n r of
        (Inl bo, r1) \<Rightarrow> (Inl bo, r1)
      | (Inr val, r1) \<Rightarrow> (Inr (NewValueBool (\<not> Value_Bool val)), r1))"

text \<open>An operand already reduced to a string: it returns the string and leaves the runner alone.\<close>

definition operand :: "string \<Rightarrow> ('r, 'b) Runnable" where
  "operand s = (\<lambda>r. (Inr s, r))"

text \<open>
  The truth table in the words of the specification: no operand, true; one operand, true
  iff its string is non-empty; two or more, true iff every operand equals the first.
\<close>

fun condition_spec :: "string list \<Rightarrow> bool" where
  "condition_spec [] = True"
| "condition_spec [s] = (s \<noteq> [])"
| "condition_spec (s # ss) = list_all (\<lambda>t. t = s) ss"

text \<open>The outcome of a run with the resulting Value read as a boolean (\<open>Value.Bool()\<close>).\<close>

definition truth :: "('b + Value) \<times> 'r \<Rightarrow> ('b + bool) \<times> 'r" where
  "truth res = (case res of (Inl bo, r) \<Rightarrow> (Inl bo, r) | (Inr v, r) \<Rightarrow> (Inr (Value_Bool v), r))"

section \<open>std_math.go: the numeric builtins\<close>

subsection \<open>Floating point\<close>

text \<open>
  A \<open>float64\<close> is modelled by its value: a finite value (a rational; the two zeros are
  one value), an infinity or NaN. Every finite double is such a value; no theorem below
  depends on which rationals are doubles.
\<close>

datatype float64 = Finite rat | PosInf | NegInf | NaN

text \<open>
  What the functions below use but do not define is a parameter, collected in one record:
  \<^item> the operations of the machine that round: the conversion of an exact value to the
    nearest \<open>float64\<close>, and \<open>+ - * /\<close> on \<open>float64\<close>;
  \<^item> \<open>math.Gamma\<close> of the Go library;
  \<^item> what \<open>Number.Int()\<close> returns for an inexact Number. The specification says that it
    returns the exact integer value only when the number is integral, and does not say
    whether an inexact Number of integral value counts.
\<close>

record numerics =
  fp_of_rat :: "rat \<Rightarrow> float64"
  fp_add :: "float64 \<Rightarrow> float64 \<Rightarrow> float64"
  fp_sub :: "float64 \<Rightarrow> float64 \<Rightarrow> float64"
  fp_mul :: "float64 \<Rightarrow> float64 \<Rightarrow> float64"
  fp_div :: "float64 \<Rightarrow> float64 \<Rightarrow> float64"
  fp_gamma :: "float64 \<Rightarrow> float64"
  float_int :: "float64 \<Rightarrow> int option"

text \<open>
  \<open>math.Floor\<close>, \<open>math.Ceil\<close>, \<open>math.IsNaN\<close> and \<open>math.IsInf\<close> of the Go library are exact:
  the floor and the ceiling of a double are doubles, and NaN and the infinities are left
  as they are.
\<close>

definition math_Floor :: "float64 \<Rightarrow> float64" where
  "math_Floor f = (case f of Finite r \<Rightarrow> Finite (of_int \<lfloor>r\<rfloor>) | _ \<Rightarrow> f)"

definition math_Ceil :: "float64 \<Rightarrow> float64" where
  "math_Ceil f = (case f of Finite r \<Rightarrow> Finite (of_int \<lceil>r\<rceil>) | _ \<Rightarrow> f)"

definition math_IsNaN :: "float64 \<Rightarrow> bool" where
  "math_IsNaN f = (f = NaN)"

definition math_IsInf :: "float64 \<Rightarrow> int \<Rightarrow> bool" where
  "math_IsInf f sign = ((sign \<ge> 0 \<and> f = PosInf) \<or> (sign \<le> 0 \<and> f = NegInf))"

text \<open>The comparison \<open><\<close> of two \<open>float64\<close>: false whenever an operand is NaN.\<close>

definition float_less :: "float64 \<Rightarrow> float64 \<Rightarrow> bool" where
  "float_less x y =
     (case (x, y) of
        (NaN, _) \<Rightarrow> False
      | (_, NaN) \<Rightarrow> False
      | (Finite a, Finite b) \<Rightarrow> a < b
      | (NegInf, NegInf) \<Rightarrow> False
      | (NegInf, _) \<Rightarrow> True
      | (_, NegInf) \<Rightarrow> False
      | (PosInf, _) \<Rightarrow> False
      | (_, PosInf) \<Rightarrow> True)"

text \<open>
  The conversion \<open>int(f)\<close> truncates towards zero. For a value outside the 64-bit range, an
  infinity or NaN the result depends on the machine; on amd64 it is \<open>- 2 ^ 63\<close>.
\<close>

definition go_int :: "float64 \<Rightarrow> int" where
  "go_int f =
     (case f of
        Finite r \<Rightarrow>
          (let t = (if r \<ge> 0 then \<lfloor>r\<rfloor> else \<lceil>r\<rceil>)
           in if - (2 ^ 63) \<le> t \<and> t < 2 ^ 63 then t else - (2 ^ 63))
      | _ \<Rightarrow> - (2 ^ 63))"

text \<open>
  \<open>big.Rat.SetFloat64(f)\<close> sets the rational \<open>z\<close> to exactly \<open>f\<close>; for an \<open>f\<close> that is not
  finite it returns nil and leaves \<open>z\<close> as it was (the callers below ignore the returned
  pointer). \<open>big.Rat.Num()\<close> is the numerator in lowest terms.
\<close>

definition Rat_SetFloat64 :: "rat \<Rightarrow> float64 \<Rightarrow> rat" where
  "Rat_SetFloat64 z f = (case f of Finite r \<Rightarrow> r | _ \<Rightarrow> z)"

definition Rat_Num :: "rat \<Rightarrow> int" where
  "Rat_Num r = fst (quotient_of r)"


text \<open>
  Arithmetic without rounding, on finite operands. Where the exact result of an operation
  is a double the machine returns it, so a theorem about the machine's operations can be
  applied at such operands with \<open>exact_op\<close> in their place.
\<close>

definition exact_op :: "(rat \<Rightarrow> rat \<Rightarrow> rat) \<Rightarrow> float64 \<Rightarrow> float64 \<Rightarrow> float64" where
  "exact_op f x y = (case (x, y) of (Finite a, Finite b) \<Rightarrow> Finite (f a b) | _ \<Rightarrow> NaN)"

subsection \<open>Numbers\<close>

text \<open>
  Modelled from the spec: the type \<open>Number\<close>, its constructors \<open>NewNumberInt\<close>,
  \<open>NewNumberBig\<close> and \<open>NewNumberFloat\<close>, its methods \<open>Int()\<close> and \<open>Float()\<close>, and the
  functions \<open>CompareNumbers\<close> and \<open>MultiplyNumbers\<close> are declared outside the files at
  hand. A Number holds exactly one of an arbitrary-precision integer, an
  arbitrary-precision rational (in lowest terms, and never of integral value) or a
  \<open>float64\<close> ("inexact"). \<open>Int()\<close> returns the exact integer value when the number is
  integral and nil otherwise; \<open>Float()\<close> returns an approximation. Comparison converts
  two exact operands to rationals and falls back to the comparison of floats when an
  operand is inexact. A product of exact operands is exact, reduced to the integer form
  when its denominator is 1; a product with an inexact operand is computed on floats.
\<close>

datatype Number = NInt int | NRat rat | NFloat float64

definition NewNumberInt :: "int \<Rightarrow> Number" where
  "NewNumberInt i = NInt i"

definition NewNumberBig :: "int \<Rightarrow> Number" where
  "NewNumberBig i = NInt i"

definition NewNumberFloat :: "float64 \<Rightarrow> Number" where
  "NewNumberFloat f = NFloat f"

definition exact_Number :: "rat \<Rightarrow> Number" where
  "exact_Number r = (if snd (quotient_of r) = 1 then NInt (fst (quotient_of r)) else NRat r)"

definition Number_Int :: "numerics \<Rightarrow> Number \<Rightarrow> int option" where
  "Number_Int env n =
     (case n of
        NInt i \<Rightarrow> Some i
      | NRat r \<Rightarrow> (if snd (quotient_of r) = 1 then Some (fst (quotient_of r)) else None)
      | NFloat f \<Rightarrow> float_int env f)"

definition Number_Float :: "numerics \<Rightarrow> Number \<Rightarrow> float64" where
  "Number_Float env n =
     (case n of
        NInt i \<Rightarrow> fp_of_rat env (of_int i)
      | NRat r \<Rightarrow> fp_of_rat env r
      | NFloat f \<Rightarrow> f)"

text \<open>An exact integer-valued Number is one of the integer variant.\<close>

definition exact_integer :: "Number \<Rightarrow> bool" where
  "exact_integer n = (case n of NInt i \<Rightarrow> True | _ \<Rightarrow> False)"

definition exact_value :: "Number \<Rightarrow> rat option" where
  "exact_value n = (case n of NInt i \<Rightarrow> Some (of_int i) | NRat r \<Rightarrow> Some r | NFloat f \<Rightarrow> None)"

definition CompareNumbers :: "numerics \<Rightarrow> Number \<Rightarrow> Number \<Rightarrow> int" where
  "CompareNumbers env a b =
     (case (exact_value a, exact_value b) of
        (Some x, Some y) \<Rightarrow> (if x < y then - 1 else if x > y then 1 else 0)
      | _ \<Rightarrow>
          (if float_less (Number_Float env a) (Number_Float env b) then - 1
           else if float_less (Number_Float env b) (Number_Float env a) then 1
           else 0))"

definition MultiplyNumbers :: "numerics \<Rightarrow> Number \<Rightarrow> Number \<Rightarrow> Number" where
  "MultiplyNumbers env a b =
     (case (exact_value a, exact_value b) of
        (Some x, Some y) \<Rightarrow> exact_Number (x * y)
      | _ \<Rightarrow> NFloat (fp_mul env (Number_Float env a) (Number_Float env b)))"

subsection \<open>Abs, Ceil, Floor, Round\<close>

definition Abs :: "numerics \<Rightarrow> Number \<Rightarrow> Number" where
  "Abs env num =
     (if CompareNumbers env num (NewNumberInt 0) = - 1
      then MultiplyNumbers env (NewNumberInt (- 1)) num
      else num)"

definition Ceil :: "float64 \<Rightarrow> Number" where
  "Ceil f = NewNumberBig (Rat_Num (Rat_SetFloat64 0 (math_Ceil f)))"

definition Floor :: "float64 \<Rightarrow> Number" where
  "Floor f = NewNumberBig (Rat_Num (Rat_SetFloat64 0 (math_Floor f)))"

definition Round :: "numerics \<Rightarrow> float64 \<Rightarrow> Number" where
  "Round env f =
     NewNumberBig (Rat_Num (Rat_SetFloat64 0 (math_Floor (fp_add env f (Finite (1 / 2))))))"

subsection \<open>Factorial\<close>

text \<open>
  The loop \<open>for i := 2; i < int(n.Float()); i++\<close> of \<open>Factorial\<close>, which multiplies \<open>res\<close>
  by \<open>i\<close>; \<open>bound\<close> is \<open>int(n.Float())\<close>.
\<close>

function Factorial_loop :: "int \<Rightarrow> int \<Rightarrow> int \<Rightarrow> int" where
  "Factorial_loop i bound res =
     (if i < bound then Factorial_loop (i + 1) bound (res * i) else res)"
  by pat_completeness auto
termination
  by (relation "measure (\<lambda>(i, bound, res). nat (bound - i))") auto

declare Factorial_loop.simps [simp del]

definition Factorial :: "numerics \<Rightarrow> Number \<Rightarrow> error + Number" where
  "Factorial env n =
     (if Number_Int env n = None \<or> CompareNumbers env n (NewNumberInt 0) < 0 then
        (let ans = fp_gamma env (Number_Float env n)
         in if math_IsNaN ans \<or> math_IsInf ans 0 then Inl CannotComputeGamma
            else Inr (NewNumberFloat ans))
      else if CompareNumbers env n (NewNumberInt 65536) \<ge> 0 then Inl ArgumentTooBig
      else Inr (NewNumberBig (Factorial_loop 2 (go_int (Number_Float env n)) 1)))"

subsection \<open>Mod\<close>


section \<open>syntax.go: the lexer\<close>

text \<open>
  The text of a line is modelled as the sequence of runes that \<open>ReadRune\<close> yields from the
  buffer, one after the other; a \<open>bytes.Buffer\<close> is the list of the runes not yet read.
\<close>

text \<open>\<open>runes\<close> turns an ASCII literal into its runes, to write inputs legibly.\<close>

definition runes :: "string \<Rightarrow> rune list" where
  "runes s = map (\<lambda>c. int (of_char c)) s"

text \<open>
  \<open>unicode.IsSpace\<close> of the Go library: in Latin-1 the runes \<open>\t \n \v \f \r\<close>, space,
  U+0085 and U+00A0; beyond Latin-1 the White_Space property (U+1680, U+2000 to U+200A,
  U+2028, U+2029, U+202F, U+205F, U+3000).
\<close>

definition IsSpace :: "rune \<Rightarrow> bool" where
  "IsSpace r =
     (if 0 \<le> r \<and> r \<le> 255
      then r = 9 \<or> r = 10 \<or> r = 11 \<or> r = 12 \<or> r = 13 \<or> r = 32 \<or> r = 133 \<or> r = 160
      else r = 5760 \<or> (8192 \<le> r \<and> r \<le> 8202) \<or> r = 8232 \<or> r = 8233 \<or> r = 8239
           \<or> r = 8287 \<or> r = 12288)"

text \<open>
  \<open>unicode.IsDigit\<close> of the Go library: in Latin-1 the runes \<open>'0'\<close> to \<open>'9'\<close>; beyond
  Latin-1 membership in the table of decimal digits (category Nd) of the Unicode version
  that the program is built with. That table is the parameter \<open>nd\<close> of the lexer.
\<close>

definition IsDigit :: "(rune \<Rightarrow> bool) \<Rightarrow> rune \<Rightarrow> bool" where
  "IsDigit nd r = (if r \<le> 255 then 48 \<le> r \<and> r \<le> 57 else nd r)"

text \<open>
  \<open>bytes.Buffer.WriteRune\<close> appends the UTF-8 encoding of a rune, and the encoding of
  U+FFFD for a rune that is no Unicode scalar value; it never fails. The text written is
  kept as the runes it decodes to.
\<close>

definition WriteRune :: "rune list \<Rightarrow> rune \<Rightarrow> rune list" where
  "WriteRune str r =
     str @ [if 0 \<le> r \<and> r \<le> 1114111 \<and> \<not> (55296 \<le> r \<and> r \<le> 57343) then r else 65533]"

text \<open>
  \<open>strconv.ParseUint(s, base, bitSize)\<close> of the Go library, for an explicit base (no
  prefix and no underscore is accepted then): every character must be a digit or a letter
  of value below the base, else the error is \<open>ErrSyntax\<close>; a value above
  \<open>2 ^ bitSize - 1\<close> is \<open>ErrRange\<close>. A non-ASCII rune is encoded in bytes above 127, which
  are no digits.
\<close>

definition digit_value :: "rune \<Rightarrow> int option" where
  "digit_value c =
     (if 48 \<le> c \<and> c \<le> 57 then Some (c - 48)
      else if 97 \<le> c \<and> c \<le> 122 then Some (c - 97 + 10)
      else if 65 \<le> c \<and> c \<le> 90 then Some (c - 65 + 10)
      else None)"

fun ParseUint_loop :: "rune list \<Rightarrow> int \<Rightarrow> int \<Rightarrow> int \<Rightarrow> rune list \<Rightarrow> error + int" where
  "ParseUint_loop s0 base maxVal n [] = Inr n"
| "ParseUint_loop s0 base maxVal n (c # cs) =
     (case digit_value c of
        None \<Rightarrow> Inl (NumErrorSyntax s0)
      | Some d \<Rightarrow>
          if d \<ge> base then Inl (NumErrorSyntax s0)
          else if n \<ge> (2 ^ 64 - 1) div base + 1 then Inl (NumErrorRange s0)
          else if n * base + d \<ge> 2 ^ 64 \<or> n * base + d > maxVal then Inl (NumErrorRange s0)
          else ParseUint_loop s0 base maxVal (n * base + d) cs)"

definition ParseUint :: "rune list \<Rightarrow> int \<Rightarrow> nat \<Rightarrow> error + int" where
  "ParseUint s base bitSize =
     (if s = [] then Inl (NumErrorSyntax s)
      else ParseUint_loop s base (2 ^ bitSize - 1) 0 s)"

text \<open>The conversion \<open>rune(res)\<close> of a \<open>uint64\<close> to the 32-bit signed \<open>rune\<close>.\<close>

definition rune_of_uint64 :: "int \<Rightarrow> rune" where
  "rune_of_uint64 res =
     (if res mod 2 ^ 32 \<ge> 2 ^ 31 then res mod 2 ^ 32 - 2 ^ 32 else res mod 2 ^ 32)"

subsection \<open>The escape decoder\<close>

text \<open>
  Every reader takes the buffer and returns its result together with the buffer it
  leaves. \<open>ReadRune\<close> on an empty buffer returns \<open>io.EOF\<close>; on a non-empty \<open>bytes.Buffer\<close>
  it cannot fail, so the branches of the source that pass on another error of \<open>ReadRune\<close>
  are dead, as are those for an error of \<open>WriteRune\<close>.

  \<open>readNumericEscape_loop\<close> is the loop \<open>for i := 0; i < charCount; i++\<close> of
  \<open>readNumericEscape\<close>; its first argument counts the iterations left.
\<close>

fun readNumericEscape_loop :: "nat \<Rightarrow> rune list \<Rightarrow> rune list \<Rightarrow> (error + rune list) \<times> rune list" where
  "readNumericEscape_loop 0 rs b = (Inr rs, b)"
| "readNumericEscape_loop (Suc n) rs [] = (Inl ErrEscapeCodeUnderflow, [])"
| "readNumericEscape_loop (Suc n) rs (r # b) = readNumericEscape_loop n (rs @ [r]) b"

definition readNumericEscape :: "rune list \<Rightarrow> nat \<Rightarrow> (error + rune) \<times> rune list" where
  "readNumericEscape b charCount =
     (case readNumericEscape_loop charCount [] b of
        (Inl e, b1) \<Rightarrow> (Inl e, b1)
      | (Inr str, b1) \<Rightarrow>
          (case ParseUint str 16 (charCount * 4) of
             Inl e \<Rightarrow> (Inl e, b1)
           | Inr res \<Rightarrow> (Inr (rune_of_uint64 res), b1)))"

text \<open>\<open>readOctalEscape_loop\<close> is the loop \<open>for i := 0; i < 3; i++\<close> of \<open>readOctalEscape\<close>.\<close>

fun readOctalEscape_loop :: "nat \<Rightarrow> rune list \<Rightarrow> rune list \<Rightarrow> rune list \<times> rune list" where
  "readOctalEscape_loop 0 rs b = (rs, b)"
| "readOctalEscape_loop (Suc n) rs [] = (rs, [])"
| "readOctalEscape_loop (Suc n) rs (r # b) =
     (if r \<ge> 48 \<and> r < 56 then readOctalEscape_loop n (rs @ [r]) b else (rs, r # b))"

definition readOctalEscape :: "rune list \<Rightarrow> (error + rune) \<times> rune list" where
  "readOctalEscape b =
     (case readOctalEscape_loop 3 [] b of
        (str, b1) \<Rightarrow>
          if length str = 0 then (Inl ErrEscapeCodeUnderflow, b1)
          else (case ParseUint str 8 8 of
                  Inl e \<Rightarrow> (Inl e, b1)
                | Inr res \<Rightarrow> (Inr (rune_of_uint64 res), b1)))"

text \<open>
  The runes of the \<open>switch\<close>: \<open>( ) ? ' "\<close>, space and backslash are 40, 41, 63, 39, 34,
  32, 92;
  \<open>a b f n r t v\<close> are 97, 98, 102, 110, 114, 116, 118 and stand for 7, 8, 12, 10, 13, 9,
  11; \<open>x u U\<close> are 120, 117, 85; \<open>'8'\<close> and \<open>'9'\<close> are 56 and 57.
\<close>

definition readEscapeSequence :: "(rune \<Rightarrow> bool) \<Rightarrow> rune list \<Rightarrow> (error + rune) \<times> rune list" where
  "readEscapeSequence nd buffer =
     (case buffer of
        [] \<Rightarrow> (Inl ErrEscapeCodeUnderflow, [])
      | firstRune # b \<Rightarrow>
          if firstRune = 40 \<or> firstRune = 41 \<or> firstRune = 63 \<or> firstRune = 39
             \<or> firstRune = 34 \<or> firstRune = 32 \<or> firstRune = 92 then (Inr firstRune, b)
          else if firstRune = 97 then (Inr 7, b)
          else if firstRune = 98 then (Inr 8, b)
          else if firstRune = 102 then (Inr 12, b)
          else if firstRune = 110 then (Inr 10, b)
          else if firstRune = 114 then (Inr 13, b)
          else if firstRune = 116 then (Inr 9, b)
          else if firstRune = 118 then (Inr 11, b)
          else if firstRune = 120 then readNumericEscape b 2
          else if firstRune = 117 then readNumericEscape b 4
          else if firstRune = 85 then readNumericEscape b 8
          else if \<not> IsDigit nd firstRune \<or> firstRune = 56 \<or> firstRune = 57
               then (Inl (InvalidEscape firstRune), b)
          else readOctalEscape (firstRune # b))"

text \<open>No reader makes the buffer longer: the loops below terminate on its length.\<close>

lemma readNumericEscape_loop_length:
  "length (snd (readNumericEscape_loop n rs b)) \<le> length b"
  by (induction n rs b rule: readNumericEscape_loop.induct) auto

lemma readOctalEscape_loop_length:
  "length (snd (readOctalEscape_loop n rs b)) \<le> length b"
  by (induction n rs b rule: readOctalEscape_loop.induct) auto

lemma readNumericEscape_length: "length (snd (readNumericEscape b n)) \<le> length b"
  using readNumericEscape_loop_length [of n "[]" b]
  by (auto simp: readNumericEscape_def split: prod.splits sum.splits)

lemma readOctalEscape_length: "length (snd (readOctalEscape b)) \<le> length b"
  using readOctalEscape_loop_length [of 3 "[]" b]
  by (auto simp: readOctalEscape_def split: prod.splits sum.splits)

lemma readEscapeSequence_length: "length (snd (readEscapeSequence nd b)) \<le> length b"
proof (cases b)
  case Nil
  then show ?thesis by (simp add: readEscapeSequence_def)
next
  case (Cons r rs)
  then show ?thesis
    using readNumericEscape_length [of rs 2] readNumericEscape_length [of rs 4]
      readNumericEscape_length [of rs 8] readOctalEscape_length [of "r # rs"]
    by (simp add: readEscapeSequence_def)
qed

lemma readEscapeSequence_shorter:
  "readEscapeSequence nd b = (res, b1) \<Longrightarrow> length b1 \<le> length b"
  using readEscapeSequence_length [of nd b] by simp

subsection \<open>Quoted strings, bare strings and whitespace\<close>

text \<open>The loop of \<open>readQuotedString\<close>; \<open>str\<close> is the text written so far.\<close>

function readQuotedString_loop ::
  "(rune \<Rightarrow> bool) \<Rightarrow> rune \<Rightarrow> rune list \<Rightarrow> rune list \<Rightarrow> (error + rune list) \<times> rune list" where
  "readQuotedString_loop nd quote str [] = (Inl ErrMissingEndQuote, [])"
| "readQuotedString_loop nd quote str (r # b) =
     (if r = quote then (Inr str, b)
      else if r = 92 then
        (case readEscapeSequence nd b of
           (Inl e, b1) \<Rightarrow> (Inl e, b1)
         | (Inr seq, b1) \<Rightarrow> readQuotedString_loop nd quote (WriteRune str seq) b1)
      else readQuotedString_loop nd quote (WriteRune str r) b)"
  by pat_completeness auto
termination
  by (relation "measure (\<lambda>(nd, quote, str, b). length b)")
     (auto simp: less_Suc_eq_le dest: readEscapeSequence_shorter [OF sym])

definition readQuotedString :: "(rune \<Rightarrow> bool) \<Rightarrow> rune list \<Rightarrow> rune \<Rightarrow> (error + rune list) \<times> rune list" where
  "readQuotedString nd buffer quote = readQuotedString_loop nd quote [] buffer"

text \<open>
  A Token: \<open>Command\<close> is \<open>None\<close> for the nil slice of a string literal, and the tokens of
  the nested command otherwise.
\<close>

datatype Token = Token (Command: "Token list option") (Text: "rune list") (Bare: bool)

record SyntaxLine =
  BlockOpen :: bool
  BlockClose :: bool
  Tokens :: "Token list"
  Number :: int

definition BlockInitiatingKeywords :: "rune list list" where
  "BlockInitiatingKeywords =
     [runes ''if'', runes ''else'', runes ''while'', runes ''try'', runes ''for'', runes ''def'']"

text \<open>The loop of \<open>readSpace\<close>, with the flag \<open>gotSpace\<close>.\<close>

fun readSpace_loop :: "bool \<Rightarrow> rune list \<Rightarrow> bool \<times> rune list" where
  "readSpace_loop gotSpace [] = (gotSpace, [])"
| "readSpace_loop gotSpace (r # b) =
     (if IsSpace r then readSpace_loop True b else (gotSpace, r # b))"

definition readSpace :: "rune list \<Rightarrow> bool \<times> rune list" where
  "readSpace b = (if length b = 0 then (True, b) else readSpace_loop False b)"

text \<open>
  The loop \<open>for buffer.Len() > 0\<close> of \<open>readBareString\<close>, with the text \<open>str\<close> written so
  far and the flag \<open>bare\<close>; the rune 41 is \<open>)\<close>.
\<close>

function readBareString_loop ::
  "(rune \<Rightarrow> bool) \<Rightarrow> rune list \<Rightarrow> bool \<Rightarrow> rune list \<Rightarrow> (error + Token) \<times> rune list" where
  "readBareString_loop nd str bare [] = (Inr (Token None str bare), [])"
| "readBareString_loop nd str bare (r # b) =
     (if IsSpace r \<or> r = 41 then (Inr (Token None str bare), r # b)
      else if r = 92 then
        (case readEscapeSequence nd b of
           (Inl e, b1) \<Rightarrow> (Inl e, b1)
         | (Inr seq, b1) \<Rightarrow> readBareString_loop nd (WriteRune str seq) False b1)
      else readBareString_loop nd (WriteRune str r) bare b)"
  by pat_completeness auto
termination
  by (relation "measure (\<lambda>(nd, str, bare, b). length b)")
     (auto simp: less_Suc_eq_le dest: readEscapeSequence_shorter [OF sym])

definition readBareString :: "(rune \<Rightarrow> bool) \<Rightarrow> rune list \<Rightarrow> (error + Token) \<times> rune list" where
  "readBareString nd buffer = readBareString_loop nd [] True buffer"

lemma readQuotedString_loop_length:
  "length (snd (readQuotedString_loop nd quote str b)) \<le> length b"
proof (induction nd quote str b rule: readQuotedString_loop.induct)
  case (1 nd quote str)
  then show ?case by simp
next
  case (2 nd quote str r b)
  obtain res b1 where e: "readEscapeSequence nd b = (res, b1)"
    by (cases "readEscapeSequence nd b")
  show ?case
    using 2 e readEscapeSequence_shorter [OF e] by (cases res) (auto simp: le_Suc_eq)
qed

lemma readBareString_loop_length:
  "length (snd (readBareString_loop nd str bare b)) \<le> length b"
proof (induction nd str bare b rule: readBareString_loop.induct)
  case (1 nd str bare)
  then show ?case by simp
next
  case (2 nd str bare r b)
  obtain res b1 where e: "readEscapeSequence nd b = (res, b1)"
    by (cases "readEscapeSequence nd b")
  show ?case
    using 2 e readEscapeSequence_shorter [OF e] by (cases res) (auto simp: le_Suc_eq)
qed

lemma readSpace_loop_length: "length (snd (readSpace_loop g b)) \<le> length b"
  by (induction g b rule: readSpace_loop.induct) auto

lemma readSpace_length: "length (snd (readSpace b)) \<le> length b"
  by (simp add: readSpace_def readSpace_loop_length)

lemma readQuotedString_shorter:
  "readQuotedString nd b q = (res, b1) \<Longrightarrow> length b1 \<le> length b"
  using readQuotedString_loop_length [of nd q "[]" b] by (simp add: readQuotedString_def)

lemma readBareString_shorter:
  "readBareString nd b = (res, b1) \<Longrightarrow> length b1 \<le> length b"
  using readBareString_loop_length [of nd "[]" True b] by (simp add: readBareString_def)

lemma readSpace_shorter: "readSpace b = (res, b1) \<Longrightarrow> length b1 \<le> length b"
  using readSpace_length [of b] by simp

lemma readSpace_loop_progress:
  "readSpace_loop g b = (True, b1) \<Longrightarrow> g \<or> length b1 < length b"
proof (induction g b arbitrary: b1 rule: readSpace_loop.induct)
  case (1 gotSpace)
  then show ?case by simp
next
  case (2 gotSpace r b)
  show ?case
  proof (cases "IsSpace r")
    case True
    with 2 have "readSpace_loop True b = (True, b1)" by simp
    then have "length b1 \<le> length b" using readSpace_loop_length [of True b] by simp
    then show ?thesis by simp
  next
    case False
    with 2 show ?thesis by simp
  qed
qed

lemma readSpace_progress:
  "readSpace b = (True, b1) \<Longrightarrow> b = [] \<or> length b1 < length b"
  using readSpace_loop_progress [of False b b1] by (auto simp: readSpace_def split: if_splits)

subsection \<open>Tokens and nested commands\<close>

text \<open>
  \<open>readNextToken\<close> and \<open>readNestedCommand\<close> call each other; \<open>readNestedCommand_loop\<close> is
  the \<open>for\<close> loop of \<open>readNestedCommand\<close> with the tokens read so far. It ends with an
  error for a \<open>return\<close> inside the loop, and with the tokens for a \<open>break\<close>. After a token
  the loop reads one rune and ends on \<open>)\<close>; any other rune is unread.
\<close>

function readNextToken :: "(rune \<Rightarrow> bool) \<Rightarrow> rune list \<Rightarrow> (error + Token) \<times> rune list"
  and readNestedCommand :: "(rune \<Rightarrow> bool) \<Rightarrow> rune list \<Rightarrow> (error + Token list) \<times> rune list"
  and readNestedCommand_loop ::
    "(rune \<Rightarrow> bool) \<Rightarrow> Token list \<Rightarrow> rune list \<Rightarrow> (error + Token list) \<times> rune list"
where
  "readNextToken nd [] = (Inl EOF, [])"
| "readNextToken nd (firstRune # b) =
     (if firstRune = 34 then
        (case readQuotedString nd b 34 of
           (Inl e, b1) \<Rightarrow> (Inl e, b1)
         | (Inr str, b1) \<Rightarrow> (Inr (Token None str False), b1))
      else if firstRune = 39 then
        (case readQuotedString nd b 39 of
           (Inl e, b1) \<Rightarrow> (Inl e, b1)
         | (Inr str, b1) \<Rightarrow> (Inr (Token None str False), b1))
      else if firstRune = 40 then
        (case readNestedCommand nd b of
           (Inl e, b1) \<Rightarrow> (Inl e, b1)
         | (Inr tokens, b1) \<Rightarrow> (Inr (Token (Some tokens) [] False), b1))
      else if firstRune = 41 then (Inl ErrUnexpectedCloseParen, b)
      else readBareString nd (firstRune # b))"
| "readNestedCommand nd b =
     (case readNestedCommand_loop nd [] (snd (readSpace b)) of
        (Inl e, b1) \<Rightarrow> (Inl e, b1)
      | (Inr tokens, b1) \<Rightarrow>
          if length tokens = 0 then (Inl ErrEmptyParens, b1) else (Inr tokens, b1))"
| "readNestedCommand_loop nd tokens b =
     (case readNextToken nd b of
        (Inl e, b1) \<Rightarrow>
          if e = ErrUnexpectedCloseParen then (Inr tokens, b1)
          else if e = EOF then (Inl ErrMissingCloseParen, b1)
          else (Inl e, b1)
      | (Inr token, b1) \<Rightarrow>
          if (case b1 of [] \<Rightarrow> False | r # b2 \<Rightarrow> r = 41) then (Inr (tokens @ [token]), tl b1)
          else (case readSpace b1 of
                  (res, b3) \<Rightarrow>
                    if \<not> res then (Inl ErrMissingWhitespace, b3)
                    else readNestedCommand_loop nd (tokens @ [token]) b3))"
  by pat_completeness auto

text \<open>
  The loop runs on the buffer that \<open>readNextToken\<close> leaves: that it ends needs that no
  reader makes the buffer longer, which is proved on the domain of the functions first.
\<close>

lemma read_partial_length:
  "readNextToken_readNestedCommand_readNestedCommand_loop_dom (Inl (nd, b)) \<Longrightarrow>
     length (snd (readNextToken nd b)) \<le> length b"
  "readNextToken_readNestedCommand_readNestedCommand_loop_dom (Inr (Inl (nd, b))) \<Longrightarrow>
     length (snd (readNestedCommand nd b)) \<le> length b"
  "readNextToken_readNestedCommand_readNestedCommand_loop_dom (Inr (Inr (nd, tokens, b))) \<Longrightarrow>
     length (snd (readNestedCommand_loop nd tokens b)) \<le> length b"
proof (induct rule: readNextToken_readNestedCommand_readNestedCommand_loop.pinduct)
  case (1 nd)
  then show ?case by (simp add: readNextToken.psimps)
next
  case (2 nd firstRune b)
  have q: "length (snd (readQuotedString nd b q)) \<le> Suc (length b)" for q
    using readQuotedString_loop_length [of nd q "[]" b] by (simp add: readQuotedString_def)
  have s: "length (snd (readBareString nd (firstRune # b))) \<le> Suc (length b)"
    using readBareString_loop_length [of nd "[]" True "firstRune # b"]
    by (simp add: readBareString_def)
  consider "firstRune = 34" | "firstRune = 39" | "firstRune = 40" | "firstRune = 41"
    | "firstRune \<noteq> 34" "firstRune \<noteq> 39" "firstRune \<noteq> 40" "firstRune \<noteq> 41"
    by blast
  then show ?case
  proof cases
    case 1
    with 2(1) q [of 34] show ?thesis
      by (cases "readQuotedString nd b 34")
         (auto simp: readNextToken.psimps split: sum.splits)
  next
    case 2
    with \<open>readNextToken_readNestedCommand_readNestedCommand_loop_dom (Inl (nd, firstRune # b))\<close>
      q [of 39] show ?thesis
      by (cases "readQuotedString nd b 39")
         (auto simp: readNextToken.psimps split: sum.splits)
  next
    case 3
    with \<open>readNextToken_readNestedCommand_readNestedCommand_loop_dom (Inl (nd, firstRune # b))\<close>
      \<open>\<lbrakk>firstRune \<noteq> 34; firstRune \<noteq> 39; firstRune = 40\<rbrakk> \<Longrightarrow>
        length (snd (readNestedCommand nd b)) \<le> length b\<close>
    show ?thesis
      by (cases "readNestedCommand nd b")
         (auto simp: readNextToken.psimps split: sum.splits)
  next
    case 4
    with \<open>readNextToken_readNestedCommand_readNestedCommand_loop_dom (Inl (nd, firstRune # b))\<close>
    show ?thesis by (simp add: readNextToken.psimps)
  next
    case 5
    with \<open>readNextToken_readNestedCommand_readNestedCommand_loop_dom (Inl (nd, firstRune # b))\<close>
      s show ?thesis by (simp add: readNextToken.psimps)
  qed
next
  case (3 nd b)
  then show ?case
    using readSpace_length [of b]
    by (auto simp: readNestedCommand.psimps split: prod.splits sum.splits)
next
  case (4 nd tokens b)
  obtain res b1 where t: "readNextToken nd b = (res, b1)" by (cases "readNextToken nd b")
  with 4 have l1: "length b1 \<le> length b" by simp
  obtain sp b3 where s: "readSpace b1 = (sp, b3)" by (cases "readSpace b1")
  then have l3: "length b3 \<le> length b1" by (rule readSpace_shorter)
  show ?case
  proof (cases res)
    case (Inl e)
    with 4 t l1 show ?thesis by (simp add: readNestedCommand_loop.psimps)
  next
    case (Inr token)
    show ?thesis
    proof (cases "case b1 of [] \<Rightarrow> False | r # b2 \<Rightarrow> r = 41")
      case True
      with 4(1) t Inr l1 show ?thesis
        by (cases b1) (auto simp: readNestedCommand_loop.psimps)
    next
      case False
      show ?thesis
      proof (cases sp)
        case True
        have "length (snd (readNestedCommand_loop nd (tokens @ [token]) b3)) \<le> length b3"
          using 4(3) [of res b1 token sp b3] t Inr False s True by simp
        with 4(1) t Inr False s True l1 l3 show ?thesis
          by (simp add: readNestedCommand_loop.psimps)
      next
        case sp_false: False
        with 4(1) t Inr False s l1 l3 show ?thesis
          by (simp add: readNestedCommand_loop.psimps)
      qed
    qed
  qed
qed

lemma readNextToken_partial_progress:
  assumes "readNextToken_readNestedCommand_readNestedCommand_loop_dom (Inl (nd, b))"
    and "readNextToken nd b = (Inr token, b1)" and "readSpace b1 = (True, b3)"
    and "b \<noteq> []"
  shows "length b3 < length b"
proof -
  have l1: "length b1 \<le> length b" using read_partial_length(1) [OF assms(1)] assms(2) by simp
  from readSpace_progress [OF assms(3)] show ?thesis
  proof
    assume "b1 = []"
    with assms(3) have "b3 = []" by (simp add: readSpace_def)
    with assms(4) show ?thesis by simp
  next
    assume "length b3 < length b1"
    with l1 show ?thesis by simp
  qed
qed

lemma readNextToken_all_dom: "All readNextToken_readNestedCommand_readNestedCommand_loop_dom"
proof (relation "measure (\<lambda>x. case x of
          Inl (nd, b) \<Rightarrow> 3 * length b
        | Inr (Inl (nd, b)) \<Rightarrow> 3 * length b + 2
        | Inr (Inr (nd, tokens, b)) \<Rightarrow> 3 * length b + 1)", goal_cases)
  case 1
  then show ?case by simp
next
  case (2 nd firstRune b)
  then show ?case by simp
next
  case (3 nd b)
  then show ?case using readSpace_length [of b] by simp
next
  case (4 nd tokens b)
  then show ?case by simp
next
  case (5 nd tokens b x y token xa ya)
  have "b \<noteq> []"
  proof
    assume "b = []"
    with 5 show False by (simp add: readNextToken.psimps)
  qed
  with 5 have "length ya < length b"
    using readNextToken_partial_progress [of nd b token y ya] by simp
  then show ?case by simp
qed

termination readNextToken
  by (rule readNextToken_all_dom)

text \<open>
  The equation of the loop applies to every buffer, so it is not a rewrite rule by
  default; it is unfolded where it is used.
\<close>

declare readNestedCommand_loop.simps [simp del]

lemma readNextToken_length: "length (snd (readNextToken nd b)) \<le> length b"
  using read_partial_length(1) readNextToken_all_dom by blast

lemma readNextToken_progress:
  "readNextToken nd b = (Inr token, b1) \<Longrightarrow> readSpace b1 = (True, b3) \<Longrightarrow> b \<noteq> []
   \<Longrightarrow> length b3 < length b"
  using readNextToken_partial_progress readNextToken_all_dom by blast

subsection \<open>Lines\<close>

text \<open>The loop \<open>for buffer.Len() > 0\<close> of \<open>parseLine\<close>, with the tokens read so far.\<close>

function parseLine_loop :: "(rune \<Rightarrow> bool) \<Rightarrow> Token list \<Rightarrow> rune list \<Rightarrow> error + Token list" where
  "parseLine_loop nd tokens buffer =
     (if length buffer > 0 then
        (case readNextToken nd buffer of
           (Inl e, b1) \<Rightarrow> Inl e
         | (Inr token, b1) \<Rightarrow>
             (case readSpace b1 of
                (res, b2) \<Rightarrow>
                  if \<not> res then Inl ErrMissingWhitespace
                  else parseLine_loop nd (tokens @ [token]) b2))
      else Inr tokens)"
  by pat_completeness auto
termination
proof (relation "measure (\<lambda>(nd, tokens, buffer). length buffer)", goal_cases)
  case 1
  then show ?case by simp
next
  case (2 nd tokens buffer x y token xa ya)
  then have "length ya < length buffer"
    using readNextToken_progress [of nd buffer token y ya] by auto
  then show ?case by simp
qed

declare parseLine_loop.simps [simp del]

text \<open>
  \<open>processCurlyBraces\<close> changes the line in place; \<open>l1\<close> is the line after the first \<open>if\<close>.
  The slices \<open>l.Tokens[1:]\<close> and \<open>l.Tokens[:len(l.Tokens)-1]\<close> are in range where they
  are taken.
\<close>

definition processCurlyBraces :: "SyntaxLine \<Rightarrow> error + SyntaxLine" where
  "processCurlyBraces l =
     (if length (Tokens l) = 0 then Inl (Panic ''there should always be tokens here'')
      else
        let l1 = (if Text (Tokens l ! 0) = runes ''}'' \<and> Bare (Tokens l ! 0)
                  then l\<lparr>Tokens := tl (Tokens l), BlockClose := True\<rparr>
                  else l);
            isOpenKeyword = (length (Tokens l1) > 0 \<and> Bare (Tokens l1 ! 0)
                             \<and> Text (Tokens l1 ! 0) \<in> set BlockInitiatingKeywords)
        in if isOpenKeyword then
             (if Text (Tokens l1 ! (length (Tokens l1) - 1)) \<noteq> runes ''{''
              then Inl ErrMissingOpenCurlyBrace
              else Inr (l1\<lparr>Tokens := butlast (Tokens l1), BlockOpen := True\<rparr>))
           else Inr l1)"

definition parseLine :: "(rune \<Rightarrow> bool) \<Rightarrow> rune list \<Rightarrow> int \<Rightarrow> error + SyntaxLine" where
  "parseLine nd text num =
     (case parseLine_loop nd [] text of
        Inl e \<Rightarrow> Inl e
      | Inr tokens \<Rightarrow>
          processCurlyBraces \<lparr>BlockOpen = False, BlockClose = False, Tokens = tokens, Number = num\<rparr>)"

subsection \<open>The escape table in the words of the specification\<close>

text \<open>
  Hex digits are \<open>0-9\<close>, \<open>a-f\<close> and \<open>A-F\<close>, octal digits \<open>0-7\<close>; \<open>number_value base ds\<close> is
  the number that the digits \<open>ds\<close> write in the base. \<open>valid_digit base c\<close> says that
  \<open>ParseUint\<close> accepts the character \<open>c\<close> in the base.
\<close>

definition hex_digit :: "rune \<Rightarrow> bool" where
  "hex_digit c \<longleftrightarrow> (48 \<le> c \<and> c \<le> 57) \<or> (97 \<le> c \<and> c \<le> 102) \<or> (65 \<le> c \<and> c \<le> 70)"

definition octal_digit :: "rune \<Rightarrow> bool" where
  "octal_digit c \<longleftrightarrow> 48 \<le> c \<and> c \<le> 55"

definition digit_of :: "rune \<Rightarrow> int" where
  "digit_of c = (if c \<le> 57 then c - 48 else if c \<ge> 97 then c - 87 else c - 55)"

definition number_value :: "int \<Rightarrow> rune list \<Rightarrow> int" where
  "number_value base ds = foldl (\<lambda>n c. n * base + digit_of c) 0 ds"

definition valid_digit :: "int \<Rightarrow> rune \<Rightarrow> bool" where
  "valid_digit base c \<longleftrightarrow> (\<exists>d. digit_value c = Some d \<and> d < base)"

subsection \<open>Nested groups in the words of the specification\<close>

text \<open>
  A word is a non-empty text of Unicode scalar values that holds no whitespace, no quote,
  no parenthesis and no backslash; \<open>spaced ws\<close> is the text of the words \<open>ws\<close> separated
  by single spaces (the rune 32).
\<close>

definition word :: "rune list \<Rightarrow> bool" where
  "word w \<longleftrightarrow> w \<noteq> [] \<and>
     (\<forall>r \<in> set w. \<not> IsSpace r \<and> r \<notin> {34, 39, 40, 41, 92}
        \<and> 0 \<le> r \<and> r \<le> 1114111 \<and> \<not> (55296 \<le> r \<and> r \<le> 57343))"

fun spaced :: "rune list list \<Rightarrow> rune list" where
  "spaced [] = []"
| "spaced [w] = w"
| "spaced (w # v # ws) = w @ 32 # spaced (v # ws)"

section \<open>Subscript\<close>

text \<open>
  C9. \<open>Subscript(l, i)\<close> returns an error exactly when \<open>i < 0\<close> or \<open>i \<ge> len(l)\<close>, and the
  error names the index; for every index in bounds it returns the element at that
  position as a string Value; it never panics.
\<close>

theorem Subscript_bounds:
  "((\<exists>e. Subscript l i = Inl e) \<longleftrightarrow> (i < 0 \<or> i \<ge> int (length l)))
   \<and> (i < 0 \<or> i \<ge> int (length l) \<longrightarrow> Subscript l i = Inl (SubscriptOutOfBounds i))
   \<and> (0 \<le> i \<and> i < int (length l) \<longrightarrow> Subscript l i = Inr (StringValue (l ! nat i)))
   \<and> (\<forall>msg. Subscript l i \<noteq> Inl (Panic msg))"
  by (auto simp: Subscript_def go_index_def)

theorem Subscript_bounds_witness:
  "(0::int) \<le> 1 \<and> 1 < int (length [''a'', ''b'']) \<and> Subscript [''a'', ''b''] 1 = Inr ''b''
   \<and> (2::int) \<ge> int (length [''a'', ''b''])
   \<and> Subscript [''a'', ''b''] 2 = Inl (SubscriptOutOfBounds 2)
   \<and> (\<exists>e. Subscript [''a'', ''b''] (- 1) = Inl e)"
  using Subscript_bounds [of "[''a'', ''b'']" 1] Subscript_bounds [of "[''a'', ''b'']" 2]
    Subscript_bounds [of "[''a'', ''b'']" "- 1"]
  by (simp add: StringValue_def)

section \<open>Substr\<close>

lemma clamp_in_range:
  "0 \<le> clamp_start s start \<and> clamp_start s start \<le> clamp_end s start end
   \<and> clamp_end s start end \<le> int (length s)"
  by (auto simp: clamp_start_def clamp_end_def)

lemma Substr_one: "s \<noteq> [] \<Longrightarrow> Substr s start [end] = go_slice s (clamp_start s start) (clamp_end s start end)"
  by (auto simp: Substr_def clamp_start_def clamp_end_def Let_def max_def min_def)

lemma Substr_none: "s \<noteq> [] \<Longrightarrow> Substr s start [] = go_slice s (clamp_start s start) (int (length s))"
  by (auto simp: Substr_def clamp_start_def clamp_end_def Let_def max_def min_def)

lemma go_slice_ok: "0 \<le> lo \<Longrightarrow> lo \<le> hi \<Longrightarrow> hi \<le> int (length xs) \<Longrightarrow>
  go_slice xs lo hi = Inr (take (nat (hi - lo)) (drop (nat lo) xs))"
  by (simp add: go_slice_def)

text \<open>
  C10. \<open>Substr\<close> never panics, whatever the indices: with at most one trailing argument
  the result is the slice of \<open>s\<close> between \<open>start\<close> clamped into \<open>[0, len(s)]\<close> and \<open>end\<close>
  clamped into \<open>[start, len(s)]\<close> (with no trailing argument, up to the end of \<open>s\<close>). For
  the empty string the result is the empty string, whatever the trailing arguments; the
  too-many-arguments error is reported for non-empty strings only.
\<close>

theorem Substr_total:
  "(\<forall>msg. Substr s start e \<noteq> Inl (Panic msg))
   \<and> (s \<noteq> [] \<longrightarrow> Substr s start [end] =
        Inr (take (nat (clamp_end s start end - clamp_start s start))
              (drop (nat (clamp_start s start)) s)))
   \<and> (s \<noteq> [] \<longrightarrow> Substr s start [] =
        Inr (drop (nat (clamp_start s start)) s))
   \<and> 0 \<le> clamp_start s start \<and> clamp_start s start \<le> clamp_end s start end
   \<and> clamp_end s start end \<le> int (length s)
   \<and> Substr [] start e = Inr []
   \<and> (s \<noteq> [] \<and> length e > 1 \<longrightarrow> Substr s start e = Inl Expected2Or3Arguments)"
proof -
  have nopanic: "\<forall>msg. Substr s start e \<noteq> Inl (Panic msg)"
    by (auto simp: Substr_def go_slice_def Let_def)
  have one: "s \<noteq> [] \<longrightarrow> Substr s start [end] =
        Inr (take (nat (clamp_end s start end - clamp_start s start))
              (drop (nat (clamp_start s start)) s))"
    using clamp_in_range [of s start "end"] by (simp add: Substr_one go_slice_ok)
  have none: "s \<noteq> [] \<longrightarrow> Substr s start [] = Inr (drop (nat (clamp_start s start)) s)"
    using clamp_in_range [of s start "int (length s)"]
    by (auto simp: Substr_none go_slice_def clamp_start_def)
  have empty: "Substr [] start e = Inr []"
    by (simp add: Substr_def)
  have many: "s \<noteq> [] \<and> length e > 1 \<longrightarrow> Substr s start e = Inl Expected2Or3Arguments"
    by (simp add: Substr_def)
  from nopanic one none empty many clamp_in_range [of s start "end"] show ?thesis by blast
qed

theorem Substr_total_witness:
  "''hello'' \<noteq> [] \<and> Substr ''hello'' (- 3) [99] = Inr ''hello''
   \<and> Substr ''hello'' 2 [] = Inr ''llo''
   \<and> Substr ''hello'' 4 [1] = Inr ''''
   \<and> length [1, 2 :: int] > 1 \<and> Substr ''hello'' 0 [1, 2] = Inl Expected2Or3Arguments
   \<and> Substr '''' 0 [1, 2] = Inr ''''"
  using Substr_total [of "''hello''" "- 3" "[99]" 99] Substr_total [of "''hello''" 2 "[]" 0]
    Substr_total [of "''hello''" 4 "[1]" 1] Substr_total [of "''hello''" 0 "[1, 2]" 0]
    Substr_total [of "''''" 0 "[1, 2]" 0]
  by (simp add: clamp_start_def clamp_end_def)

section \<open>Condition and NotCondition\<close>

lemma Condition_rest_operands:
  "Condition_rest str (map operand ss) r = (Inr (NewValueBool (list_all (\<lambda>t. t = str) ss)), r)"
  by (induction ss) (auto simp: operand_def Value_String_def emptyValue_def NewValueBool_def)

lemma Condition_Run_operands:
  "Condition_Run (map operand ss) r =
     (Inr (case ss of [s] \<Rightarrow> s | _ \<Rightarrow> NewValueBool (condition_spec ss)), r)"
proof (cases ss rule: condition_spec.cases)
  case 1
  then show ?thesis by (simp add: Condition_Run_def)
next
  case (2 s)
  then show ?thesis by (simp add: Condition_Run_def operand_def)
next
  case (3 s v va)
  then show ?thesis
    using Condition_rest_operands [of s "v # va" r]
    by (simp add: Condition_Run_def operand_def Value_String_def)
qed

lemma Value_Bool_NewValueBool: "Value_Bool (NewValueBool b) = b"
  by (simp add: Value_Bool_def NewValueBool_def)

text \<open>
  C2. Over operands already reduced to strings, \<open>Condition\<close> is true for no operand, true
  for one operand iff its string is non-empty, and true for two or more iff every operand
  equals the first; \<open>NotCondition\<close> over the same operands returns the complement. Neither
  changes the runner.
\<close>

theorem Condition_truth_table:
  "truth (Condition_Run (map operand ss :: ('r, 'b) Runnable list) r) = (Inr (condition_spec ss), r)
   \<and> truth (NotCondition_Run (map operand ss :: ('r, 'b) Runnable list) r)
       = (Inr (\<not> condition_spec ss), r)"
proof -
  have "Value_Bool (case ss of [s] \<Rightarrow> s | _ \<Rightarrow> NewValueBool (condition_spec ss)) \<longleftrightarrow> condition_spec ss"
    by (cases ss rule: condition_spec.cases) (simp_all add: Value_Bool_NewValueBool, simp add: Value_Bool_def)
  then show ?thesis
    by (simp add: truth_def Condition_Run_operands NotCondition_Run_def Value_Bool_NewValueBool)
qed

theorem Condition_truth_table_witness:
  "truth (Condition_Run (map operand [] :: (unit, unit) Runnable list) ()) = (Inr True, ())
   \<and> truth (Condition_Run (map operand [[]] :: (unit, unit) Runnable list) ()) = (Inr False, ())
   \<and> truth (Condition_Run (map operand [''a''] :: (unit, unit) Runnable list) ()) = (Inr True, ())
   \<and> truth (Condition_Run (map operand [''a'', ''a'', ''a''] :: (unit, unit) Runnable list) ())
       = (Inr True, ())
   \<and> truth (Condition_Run (map operand [''a'', ''a'', ''b''] :: (unit, unit) Runnable list) ())
       = (Inr False, ())
   \<and> truth (NotCondition_Run (map operand [''a'', ''a'', ''b''] :: (unit, unit) Runnable list) ())
       = (Inr True, ())"
  using Condition_truth_table [where ?'b = unit and ss = "[]" and r = "()"]
    Condition_truth_table [where ?'b = unit and ss = "[[]]" and r = "()"]
    Condition_truth_table [where ?'b = unit and ss = "[''a'']" and r = "()"]
    Condition_truth_table [where ?'b = unit and ss = "[''a'', ''a'', ''a'']" and r = "()"]
    Condition_truth_table [where ?'b = unit and ss = "[''a'', ''a'', ''b'']" and r = "()"]
  by simp

section \<open>The lexer\<close>

text \<open>Rules to run the lexer on a given text.\<close>

lemma runes_simps [simp]: "runes [] = []" "runes (c # cs) = int (of_char c) # runes cs"
  by (simp_all add: runes_def)

lemma readSpace_simps:
  "readSpace [] = (True, [])"
  "readSpace (r # b) = readSpace_loop False (r # b)"
  by (simp_all add: readSpace_def)

lemmas lexer_eval = readSpace_simps IsSpace_def readBareString_def readQuotedString_def
  WriteRune_def readNestedCommand_loop.simps parseLine_loop.simps

lemma snd_readSpace_loop: "snd (readSpace_loop g b) = dropWhile IsSpace b"
  by (induction g b rule: readSpace_loop.induct) auto

lemma snd_readSpace: "snd (readSpace b) = dropWhile IsSpace b"
  by (simp add: readSpace_def snd_readSpace_loop)

subsection \<open>Nested commands\<close>

text \<open>
  One turn of the loop of \<open>readNestedCommand\<close>, by what \<open>readNextToken\<close> returns and what
  follows the token.
\<close>

lemma readSpace_loop_True: "readSpace_loop True b = (True, dropWhile IsSpace b)"
  by (induction b) auto

lemma readSpace_space: "IsSpace r \<Longrightarrow> readSpace (r # b) = (True, dropWhile IsSpace b)"
  by (simp add: readSpace_def readSpace_loop_True)

lemma readSpace_no_space: "\<not> IsSpace r \<Longrightarrow> readSpace (r # b) = (False, r # b)"
  by (simp add: readSpace_def)

lemma IsSpace_41: "\<not> IsSpace 41"
  by (simp add: IsSpace_def)

lemma readNestedCommand_loop_close: "readNestedCommand_loop nd tokens (41 # rest) = (Inr tokens, rest)"
  by (simp add: readNestedCommand_loop.simps [of nd tokens "41 # rest"])

lemma readNestedCommand_loop_end: "readNestedCommand_loop nd tokens [] = (Inl ErrMissingCloseParen, [])"
  by (simp add: readNestedCommand_loop.simps [of nd tokens "[]"])

lemma readNestedCommand_loop_token_close:
  "readNextToken nd b = (Inr token, 41 # rest) \<Longrightarrow>
     readNestedCommand_loop nd tokens b = (Inr (tokens @ [token]), rest)"
  by (simp add: readNestedCommand_loop.simps [of nd tokens b])

lemma readNestedCommand_loop_token_end:
  "readNextToken nd b = (Inr token, []) \<Longrightarrow>
     readNestedCommand_loop nd tokens b = (Inl ErrMissingCloseParen, [])"
  by (simp add: readNestedCommand_loop.simps [of nd tokens b] readSpace_def readNestedCommand_loop_end)

lemma readNestedCommand_loop_token_space:
  "readNextToken nd b = (Inr token, r # rest) \<Longrightarrow> IsSpace r \<Longrightarrow>
     readNestedCommand_loop nd tokens b =
       readNestedCommand_loop nd (tokens @ [token]) (dropWhile IsSpace rest)"
  using IsSpace_41
  by (auto simp: readNestedCommand_loop.simps [of nd tokens b] readSpace_space)

lemma readNestedCommand_loop_token_no_space:
  "readNextToken nd b = (Inr token, r # rest) \<Longrightarrow> r \<noteq> 41 \<Longrightarrow> \<not> IsSpace r \<Longrightarrow>
     readNestedCommand_loop nd tokens b = (Inl ErrMissingWhitespace, r # rest)"
  by (simp add: readNestedCommand_loop.simps [of nd tokens b] readSpace_no_space)

lemma readNestedCommand_loop_error:
  "readNextToken nd b = (Inl e, b1) \<Longrightarrow> e \<noteq> ErrUnexpectedCloseParen \<Longrightarrow> e \<noteq> EOF \<Longrightarrow>
     readNestedCommand_loop nd tokens b = (Inl e, b1)"
  by (simp add: readNestedCommand_loop.simps [of nd tokens b])

lemma readBareString_loop_plain:
  "\<forall>r \<in> set w. \<not> IsSpace r \<and> r \<notin> {34, 39, 40, 41, 92}
        \<and> 0 \<le> r \<and> r \<le> 1114111 \<and> \<not> (55296 \<le> r \<and> r \<le> 57343) \<Longrightarrow>
   b = [] \<or> IsSpace (hd b) \<or> hd b = 41 \<Longrightarrow>
     readBareString_loop nd str bare (w @ b) = (Inr (Token None (str @ w) bare), b)"
proof (induction w arbitrary: str)
  case Nil
  then show ?case by (cases b) auto
next
  case (Cons r w)
  then show ?case by (simp add: WriteRune_def)
qed

lemma readNextToken_word:
  assumes "word w" "b = [] \<or> IsSpace (hd b) \<or> hd b = 41"
  shows "readNextToken nd (w @ b) = (Inr (Token None w True), b)"
proof -
  from assms(1) obtain r w' where w: "w = r # w'" by (cases w) (auto simp: word_def)
  with assms(1) have r: "r \<noteq> 34" "r \<noteq> 39" "r \<noteq> 40" "r \<noteq> 41" by (auto simp: word_def)
  have "readBareString nd (w @ b) = (Inr (Token None w True), b)"
    unfolding readBareString_def
    using readBareString_loop_plain [of w b nd "[]" True] assms by (simp add: word_def)
  with w r show ?thesis by simp
qed

lemma word_dropWhile: "word w \<Longrightarrow> dropWhile IsSpace (w @ b) = w @ b"
  by (cases w) (auto simp: word_def)

lemma spaced_dropWhile:
  "\<forall>w \<in> set ws. word w \<Longrightarrow> dropWhile IsSpace (spaced ws @ 41 # rest) = spaced ws @ 41 # rest"
proof (cases ws rule: spaced.cases)
  case 1
  then show ?thesis by (simp add: IsSpace_41)
next
  case (2 w)
  assume "\<forall>w \<in> set ws. word w"
  with 2 show ?thesis by (simp add: word_dropWhile)
next
  case (3 w v ws')
  assume "\<forall>w \<in> set ws. word w"
  with 3 show ?thesis using word_dropWhile [of w "32 # spaced (v # ws') @ 41 # rest"] by simp
qed

lemma spaced_dropWhile_end:
  "\<forall>w \<in> set ws. word w \<Longrightarrow> dropWhile IsSpace (spaced ws) = spaced ws"
proof (cases ws rule: spaced.cases)
  case 1
  then show ?thesis by simp
next
  case (2 w)
  assume "\<forall>w \<in> set ws. word w"
  with 2 show ?thesis using word_dropWhile [of w "[]"] by simp
next
  case (3 w v ws')
  assume "\<forall>w \<in> set ws. word w"
  with 3 show ?thesis using word_dropWhile [of w "32 # spaced (v # ws')"] by simp
qed

lemma readNestedCommand_loop_spaced:
  "ws \<noteq> [] \<Longrightarrow> \<forall>w \<in> set ws. word w \<Longrightarrow>
     readNestedCommand_loop nd tokens (spaced ws @ 41 # rest) =
       (Inr (tokens @ map (\<lambda>w. Token None w True) ws), rest)"
proof (induction ws arbitrary: tokens rule: spaced.induct)
  case 1
  then show ?case by simp
next
  case (2 w)
  then have "readNextToken nd (w @ 41 # rest) = (Inr (Token None w True), 41 # rest)"
    using readNextToken_word [of w "41 # rest" nd] by simp
  then show ?case by (simp add: readNestedCommand_loop_token_close)
next
  case (3 w v ws)
  let ?b = "spaced (v # ws) @ 41 # rest"
  have sp: "IsSpace 32" by (simp add: IsSpace_def)
  from 3 have "readNextToken nd (w @ 32 # ?b) = (Inr (Token None w True), 32 # ?b)"
    using readNextToken_word [of w "32 # ?b" nd] sp by simp
  then have "readNestedCommand_loop nd tokens (w @ 32 # ?b) =
      readNestedCommand_loop nd (tokens @ [Token None w True]) (dropWhile IsSpace ?b)"
    using sp by (rule readNestedCommand_loop_token_space)
  moreover have "dropWhile IsSpace ?b = ?b"
    using 3(3) spaced_dropWhile [of "v # ws" rest] by simp
  moreover have "readNestedCommand_loop nd (tokens @ [Token None w True]) ?b =
      (Inr ((tokens @ [Token None w True]) @ map (\<lambda>w. Token None w True) (v # ws)), rest)"
    using 3 by simp
  ultimately show ?case by simp
qed

lemma readNestedCommand_loop_spaced_end:
  "\<forall>w \<in> set ws. word w \<Longrightarrow>
     readNestedCommand_loop nd tokens (spaced ws) = (Inl ErrMissingCloseParen, [])"
proof (induction ws arbitrary: tokens rule: spaced.induct)
  case 1
  then show ?case by (simp add: readNestedCommand_loop_end)
next
  case (2 w)
  then have "readNextToken nd (w @ []) = (Inr (Token None w True), [])"
    using readNextToken_word [of w "[]" nd] by simp
  then show ?case by (simp add: readNestedCommand_loop_token_end)
next
  case (3 w v ws)
  let ?b = "spaced (v # ws)"
  have sp: "IsSpace 32" by (simp add: IsSpace_def)
  from 3 have "readNextToken nd (w @ 32 # ?b) = (Inr (Token None w True), 32 # ?b)"
    using readNextToken_word [of w "32 # ?b" nd] sp by simp
  then have "readNestedCommand_loop nd tokens (w @ 32 # ?b) =
      readNestedCommand_loop nd (tokens @ [Token None w True]) (dropWhile IsSpace ?b)"
    using sp by (rule readNestedCommand_loop_token_space)
  moreover have "dropWhile IsSpace ?b = ?b"
    using 3(2) spaced_dropWhile_end [of "v # ws"] by simp
  moreover have "readNestedCommand_loop nd (tokens @ [Token None w True]) ?b =
      (Inl ErrMissingCloseParen, [])"
    using 3 by simp
  ultimately show ?case by simp
qed


text \<open>
  C5. A nested command skips the whitespace after \<open>(\<close>, then reads tokens until a \<open>)\<close>.
  \<open>(add 1 2)\<close> is one group Token with the bare literal tokens \<open>add\<close>, \<open>1\<close> and \<open>2\<close>; a group
  closed before any token, as \<open>()\<close>, fails with the empty-parens error, so a group is never
  empty; and the end of the input before the \<open>)\<close>, as in \<open>(add 1\<close>, fails with the
  missing-close-paren error. In general, a \<open>)\<close> where a token is expected or right after
  a token ends the group with the tokens read so far; the end of the input there fails
  with the missing-close-paren error; whitespace after a token is skipped and the loop
  goes on; any other rune after a token fails with the missing-whitespace error; and any
  other error of a token is passed on. So for every non-empty list of words, the text of
  \<open>(\<close>, the words separated by spaces and \<open>)\<close> is one group Token of their bare literal
  tokens, and without the \<open>)\<close> it fails with the missing-close-paren error.
\<close>

theorem readNestedCommand_groups:
  "readNextToken nd (runes ''(add 1 2)'') =
     (Inr (Token (Some [Token None (runes ''add'') True, Token None (runes ''1'') True,
                        Token None (runes ''2'') True]) [] False), [])
   \<and> readNextToken nd (runes ''()'') = (Inl ErrEmptyParens, [])
   \<and> readNextToken nd (runes ''(add 1'') = (Inl ErrMissingCloseParen, [])
   \<and> readNestedCommand nd b = readNestedCommand nd (dropWhile IsSpace b)
   \<and> readNestedCommand nd (41 # rest) = (Inl ErrEmptyParens, rest)
   \<and> readNestedCommand_loop nd tokens [] = (Inl ErrMissingCloseParen, [])
   \<and> (\<forall>toks b1. readNestedCommand nd b = (Inr toks, b1) \<longrightarrow> toks \<noteq> [])
   \<and> readNextToken nd (40 # b) =
       (case readNestedCommand nd b of
          (Inl e, b1) \<Rightarrow> (Inl e, b1)
        | (Inr toks, b1) \<Rightarrow> (Inr (Token (Some toks) [] False), b1))
   \<and> readNestedCommand nd b =
       (case readNestedCommand_loop nd [] (dropWhile IsSpace b) of
          (Inl e, b1) \<Rightarrow> (Inl e, b1)
        | (Inr toks, b1) \<Rightarrow> if toks = [] then (Inl ErrEmptyParens, b1) else (Inr toks, b1))
   \<and> readNestedCommand_loop nd tokens (41 # rest) = (Inr tokens, rest)
   \<and> (readNextToken nd b = (Inr token, 41 # rest) \<longrightarrow>
        readNestedCommand_loop nd tokens b = (Inr (tokens @ [token]), rest))
   \<and> (readNextToken nd b = (Inr token, []) \<longrightarrow>
        readNestedCommand_loop nd tokens b = (Inl ErrMissingCloseParen, []))
   \<and> (readNextToken nd b = (Inr token, r # rest) \<and> IsSpace r \<longrightarrow>
        readNestedCommand_loop nd tokens b =
          readNestedCommand_loop nd (tokens @ [token]) (dropWhile IsSpace rest))
   \<and> (readNextToken nd b = (Inr token, r # rest) \<and> r \<noteq> 41 \<and> \<not> IsSpace r \<longrightarrow>
        readNestedCommand_loop nd tokens b = (Inl ErrMissingWhitespace, r # rest))
   \<and> (readNextToken nd b = (Inl e, b1) \<and> e \<noteq> ErrUnexpectedCloseParen \<and> e \<noteq> EOF \<longrightarrow>
        readNestedCommand_loop nd tokens b = (Inl e, b1))
   \<and> (ws \<noteq> [] \<and> (\<forall>w \<in> set ws. word w) \<longrightarrow>
        readNextToken nd (40 # spaced ws @ 41 # rest) =
          (Inr (Token (Some (map (\<lambda>w. Token None w True) ws)) [] False), rest))
   \<and> ((\<forall>w \<in> set ws. word w) \<longrightarrow>
        readNextToken nd (40 # spaced ws) = (Inl ErrMissingCloseParen, []))"
proof -
  have a: "readNextToken nd (runes ''(add 1 2)'') =
     (Inr (Token (Some [Token None (runes ''add'') True, Token None (runes ''1'') True,
                        Token None (runes ''2'') True]) [] False), [])"
    by (simp add: lexer_eval)
  have b: "readNextToken nd (runes ''()'') = (Inl ErrEmptyParens, [])"
    by (simp add: lexer_eval)
  have c: "readNextToken nd (runes ''(add 1'') = (Inl ErrMissingCloseParen, [])"
    by (simp add: lexer_eval)
  have d: "readNestedCommand nd b = readNestedCommand nd (dropWhile IsSpace b)"
    by (simp add: snd_readSpace dropWhile_idem)
  have e: "readNestedCommand nd (41 # rest) = (Inl ErrEmptyParens, rest)"
    by (simp add: lexer_eval)
  have f: "readNestedCommand_loop nd tokens [] = (Inl ErrMissingCloseParen, [])"
    by (rule readNestedCommand_loop_end)
  have g: "\<forall>toks b1. readNestedCommand nd b = (Inr toks, b1) \<longrightarrow> toks \<noteq> []"
    by (auto split: prod.splits sum.splits if_splits)
  have h: "readNextToken nd (40 # b) =
       (case readNestedCommand nd b of
          (Inl e, b1) \<Rightarrow> (Inl e, b1)
        | (Inr toks, b1) \<Rightarrow> (Inr (Token (Some toks) [] False), b1))"
    by simp
  have i: "readNestedCommand nd b =
       (case readNestedCommand_loop nd [] (dropWhile IsSpace b) of
          (Inl e, b1) \<Rightarrow> (Inl e, b1)
        | (Inr toks, b1) \<Rightarrow> if toks = [] then (Inl ErrEmptyParens, b1) else (Inr toks, b1))"
    by (simp add: snd_readSpace split: prod.splits sum.splits)
  have j: "readNestedCommand_loop nd tokens (41 # rest) = (Inr tokens, rest)"
    by (rule readNestedCommand_loop_close)
  have k: "readNextToken nd b = (Inr token, 41 # rest) \<longrightarrow>
        readNestedCommand_loop nd tokens b = (Inr (tokens @ [token]), rest)"
    by (simp add: readNestedCommand_loop_token_close)
  have l: "readNextToken nd b = (Inr token, []) \<longrightarrow>
        readNestedCommand_loop nd tokens b = (Inl ErrMissingCloseParen, [])"
    by (simp add: readNestedCommand_loop_token_end)
  have m: "readNextToken nd b = (Inr token, r # rest) \<and> IsSpace r \<longrightarrow>
        readNestedCommand_loop nd tokens b =
          readNestedCommand_loop nd (tokens @ [token]) (dropWhile IsSpace rest)"
    using readNestedCommand_loop_token_space [of nd b token r rest tokens] by blast
  have n: "readNextToken nd b = (Inr token, r # rest) \<and> r \<noteq> 41 \<and> \<not> IsSpace r \<longrightarrow>
        readNestedCommand_loop nd tokens b = (Inl ErrMissingWhitespace, r # rest)"
    using readNestedCommand_loop_token_no_space [of nd b token r rest tokens] by blast
  have o: "readNextToken nd b = (Inl e, b1) \<and> e \<noteq> ErrUnexpectedCloseParen \<and> e \<noteq> EOF \<longrightarrow>
        readNestedCommand_loop nd tokens b = (Inl e, b1)"
    using readNestedCommand_loop_error [of nd b e b1 tokens] by blast
  have p: "ws \<noteq> [] \<and> (\<forall>w \<in> set ws. word w) \<longrightarrow>
        readNextToken nd (40 # spaced ws @ 41 # rest) =
          (Inr (Token (Some (map (\<lambda>w. Token None w True) ws)) [] False), rest)"
  proof
    assume w: "ws \<noteq> [] \<and> (\<forall>w \<in> set ws. word w)"
    then have "readNestedCommand_loop nd [] (spaced ws @ 41 # rest) =
        (Inr (map (\<lambda>w. Token None w True) ws), rest)"
      using readNestedCommand_loop_spaced [of ws nd "[]" rest] by simp
    moreover have "dropWhile IsSpace (spaced ws @ 41 # rest) = spaced ws @ 41 # rest"
      using w by (simp add: spaced_dropWhile)
    ultimately have "readNestedCommand nd (spaced ws @ 41 # rest) =
        (Inr (map (\<lambda>w. Token None w True) ws), rest)"
      using w by (simp add: snd_readSpace)
    then show "readNextToken nd (40 # spaced ws @ 41 # rest) =
          (Inr (Token (Some (map (\<lambda>w. Token None w True) ws)) [] False), rest)"
      by simp
  qed
  have q: "(\<forall>w \<in> set ws. word w) \<longrightarrow>
        readNextToken nd (40 # spaced ws) = (Inl ErrMissingCloseParen, [])"
  proof
    assume w: "\<forall>w \<in> set ws. word w"
    then have "readNestedCommand_loop nd [] (spaced ws) = (Inl ErrMissingCloseParen, [])"
      by (rule readNestedCommand_loop_spaced_end)
    moreover have "dropWhile IsSpace (spaced ws) = spaced ws"
      using w by (rule spaced_dropWhile_end)
    ultimately have "readNestedCommand nd (spaced ws) = (Inl ErrMissingCloseParen, [])"
      by (simp add: snd_readSpace)
    then show "readNextToken nd (40 # spaced ws) = (Inl ErrMissingCloseParen, [])"
      by simp
  qed
  show ?thesis
    apply (intro conjI)
    apply (rule a) apply (rule b) apply (rule c) apply (rule d) apply (rule e) apply (rule f)
    apply (rule g) apply (rule h) apply (rule i) apply (rule j) apply (rule k) apply (rule l)
    apply (rule m) apply (rule n) apply (rule o) apply (rule p) apply (rule q)
    done
qed


theorem readNestedCommand_groups_witness:
  "\<forall>nd. readNestedCommand nd (runes '' add 1 2) x'') =
       (Inr [Token None (runes ''add'') True, Token None (runes ''1'') True,
             Token None (runes ''2'') True], runes '' x'')
    \<and> [Token None (runes ''add'') True, Token None (runes ''1'') True,
             Token None (runes ''2'') True] \<noteq> []
    \<and> readNestedCommand nd (runes ''  )'') = (Inl ErrEmptyParens, [])
    \<and> readNextToken nd (runes ''a)x'') = (Inr (Token None (runes ''a'') True), runes '')x'')
    \<and> readNestedCommand_loop nd [] (runes ''a)x'') =
        (Inr [Token None (runes ''a'') True], runes ''x'')
    \<and> readNextToken nd (runes ''a'') = (Inr (Token None (runes ''a'') True), [])
    \<and> readNestedCommand_loop nd [] (runes ''a'') = (Inl ErrMissingCloseParen, [])
    \<and> readNextToken nd (runes ''a )'') = (Inr (Token None (runes ''a'') True), runes '' )'')
    \<and> readNestedCommand_loop nd [] (runes ''a )'') =
        (Inr [Token None (runes ''a'') True], [])
    \<and> readNextToken nd (runes ''(a)b)'') =
        (Inr (Token (Some [Token None (runes ''a'') True]) [] False), runes ''b)'')
    \<and> readNestedCommand_loop nd [] (runes ''(a)b)'') = (Inl ErrMissingWhitespace, runes ''b)'')
    \<and> readNextToken nd (runes ''()'') = (Inl ErrEmptyParens, [])
    \<and> readNestedCommand_loop nd [] (runes ''()'') = (Inl ErrEmptyParens, [])
    \<and> word (runes ''add'') \<and> word (runes ''1'') \<and> word (runes ''2'')
    \<and> readNextToken nd (40 # spaced [runes ''add'', runes ''1'', runes ''2''] @ 41 # runes '' x'') =
        (Inr (Token (Some [Token None (runes ''add'') True, Token None (runes ''1'') True,
                           Token None (runes ''2'') True]) [] False), runes '' x'')
    \<and> readNextToken nd (40 # spaced [runes ''add'', runes ''1'']) = (Inl ErrMissingCloseParen, [])"
proof
  fix nd
  let ?a = "Token None (runes ''a'') True"
  let ?toks = "[Token None (runes ''add'') True, Token None (runes ''1'') True,
             Token None (runes ''2'') True]"
  have h: "readNestedCommand nd (runes '' add 1 2) x'') = (Inr ?toks, runes '' x'')"
    by (simp add: lexer_eval)
  have "\<forall>toks b1. readNestedCommand nd (runes '' add 1 2) x'') = (Inr toks, b1) \<longrightarrow> toks \<noteq> []"
    using readNestedCommand_groups [where nd = nd and b = "runes '' add 1 2) x''"] by blast
  with h have n: "?toks \<noteq> []" by blast
  have "dropWhile IsSpace (runes ''  )'') = runes '')''" by (simp add: IsSpace_def)
  then have e: "readNestedCommand nd (runes ''  )'') = (Inl ErrEmptyParens, [])"
    using readNestedCommand_groups [where nd = nd and b = "runes ''  )''" and rest = "[]"]
    by (simp add: lexer_eval)
  have t1: "readNextToken nd (runes ''a)x'') = (Inr ?a, runes '')x'')"
    by (simp add: lexer_eval)
  then have l1: "readNestedCommand_loop nd [] (runes ''a)x'') = (Inr [?a], runes ''x'')"
    using readNestedCommand_groups [where nd = nd and b = "runes ''a)x''" and token = ?a and rest = "runes ''x''" and tokens = "[]"]
    by simp
  have t2: "readNextToken nd (runes ''a'') = (Inr ?a, [])"
    by (simp add: lexer_eval)
  then have l2: "readNestedCommand_loop nd [] (runes ''a'') = (Inl ErrMissingCloseParen, [])"
    using readNestedCommand_groups [where nd = nd and b = "runes ''a''" and token = ?a and tokens = "[]"]
    by simp
  have t3: "readNextToken nd (runes ''a )'') = (Inr ?a, runes '' )'')"
    by (simp add: lexer_eval)
  have c3: "readNestedCommand_loop nd [?a] (41 # []) = (Inr [?a], [])"
    using readNestedCommand_groups [where nd = nd and tokens = "[?a]" and rest = "[]"] by blast
  have "readNextToken nd (runes ''a )'') = (Inr ?a, 32 # runes '')'') \<and> IsSpace 32 \<longrightarrow>
      readNestedCommand_loop nd [] (runes ''a )'') =
        readNestedCommand_loop nd ([] @ [?a]) (dropWhile IsSpace (runes '')''))"
    using readNestedCommand_groups [where nd = nd and b = "runes ''a )''" and token = ?a and r = 32 and rest = "runes '')''"
        and tokens = "[]"] by blast
  with t3 c3 have l3: "readNestedCommand_loop nd [] (runes ''a )'') = (Inr [?a], [])"
    by (simp add: IsSpace_def)
  have t4: "readNextToken nd (runes ''(a)b)'') = (Inr (Token (Some [?a]) [] False), runes ''b)'')"
    by (simp add: lexer_eval)
  have "readNextToken nd (runes ''(a)b)'') = (Inr (Token (Some [?a]) [] False), 98 # runes '')'')
      \<and> (98 :: rune) \<noteq> 41 \<and> \<not> IsSpace 98 \<longrightarrow>
      readNestedCommand_loop nd [] (runes ''(a)b)'') = (Inl ErrMissingWhitespace, 98 # runes '')'')"
    using readNestedCommand_groups [where nd = nd and b = "runes ''(a)b)''" and token = "Token (Some [?a]) [] False" and r = 98
        and rest = "runes '')''" and tokens = "[]"] by blast
  with t4 have l4: "readNestedCommand_loop nd [] (runes ''(a)b)'') =
      (Inl ErrMissingWhitespace, runes ''b)'')"
    by (simp add: IsSpace_def)
  have t5: "readNextToken nd (runes ''()'') = (Inl ErrEmptyParens, [])"
    by (simp add: lexer_eval)
  have "readNextToken nd (runes ''()'') = (Inl ErrEmptyParens, [])
      \<and> ErrEmptyParens \<noteq> ErrUnexpectedCloseParen \<and> ErrEmptyParens \<noteq> EOF \<longrightarrow>
      readNestedCommand_loop nd [] (runes ''()'') = (Inl ErrEmptyParens, [])"
    using readNestedCommand_groups [where nd = nd and b = "runes ''()''" and e = ErrEmptyParens and ?b1.0 = "[]" and tokens = "[]"]
    by blast
  with t5 have l5: "readNestedCommand_loop nd [] (runes ''()'') = (Inl ErrEmptyParens, [])"
    by simp
  have w: "word (runes ''add'')" "word (runes ''1'')" "word (runes ''2'')"
    by (simp_all add: word_def IsSpace_def)
  have "[runes ''add'', runes ''1'', runes ''2''] \<noteq> []
      \<and> (\<forall>w \<in> set [runes ''add'', runes ''1'', runes ''2'']. word w) \<longrightarrow>
      readNextToken nd (40 # spaced [runes ''add'', runes ''1'', runes ''2''] @ 41 # runes '' x'') =
        (Inr (Token (Some (map (\<lambda>w. Token None w True) [runes ''add'', runes ''1'', runes ''2'']))
           [] False), runes '' x'')"
    using readNestedCommand_groups [where nd = nd and ws = "[runes ''add'', runes ''1'', runes ''2'']" and rest = "runes '' x''"]
    by blast
  with w have g1: "readNextToken nd
      (40 # spaced [runes ''add'', runes ''1'', runes ''2''] @ 41 # runes '' x'') =
        (Inr (Token (Some ?toks) [] False), runes '' x'')"
    by simp
  have "(\<forall>w \<in> set [runes ''add'', runes ''1'']. word w) \<longrightarrow>
      readNextToken nd (40 # spaced [runes ''add'', runes ''1'']) = (Inl ErrMissingCloseParen, [])"
    using readNestedCommand_groups [where nd = nd and ws = "[runes ''add'', runes ''1'']"] by blast
  with w have g2: "readNextToken nd (40 # spaced [runes ''add'', runes ''1'']) =
      (Inl ErrMissingCloseParen, [])"
    by simp
  show "readNestedCommand nd (runes '' add 1 2) x'') = (Inr ?toks, runes '' x'')
    \<and> ?toks \<noteq> []
    \<and> readNestedCommand nd (runes ''  )'') = (Inl ErrEmptyParens, [])
    \<and> readNextToken nd (runes ''a)x'') = (Inr ?a, runes '')x'')
    \<and> readNestedCommand_loop nd [] (runes ''a)x'') = (Inr [?a], runes ''x'')
    \<and> readNextToken nd (runes ''a'') = (Inr ?a, [])
    \<and> readNestedCommand_loop nd [] (runes ''a'') = (Inl ErrMissingCloseParen, [])
    \<and> readNextToken nd (runes ''a )'') = (Inr ?a, runes '' )'')
    \<and> readNestedCommand_loop nd [] (runes ''a )'') = (Inr [?a], [])
    \<and> readNextToken nd (runes ''(a)b)'') = (Inr (Token (Some [?a]) [] False), runes ''b)'')
    \<and> readNestedCommand_loop nd [] (runes ''(a)b)'') = (Inl ErrMissingWhitespace, runes ''b)'')
    \<and> readNextToken nd (runes ''()'') = (Inl ErrEmptyParens, [])
    \<and> readNestedCommand_loop nd [] (runes ''()'') = (Inl ErrEmptyParens, [])
    \<and> word (runes ''add'') \<and> word (runes ''1'') \<and> word (runes ''2'')
    \<and> readNextToken nd (40 # spaced [runes ''add'', runes ''1'', runes ''2''] @ 41 # runes '' x'') =
        (Inr (Token (Some ?toks) [] False), runes '' x'')
    \<and> readNextToken nd (40 # spaced [runes ''add'', runes ''1'']) = (Inl ErrMissingCloseParen, [])"
    apply (intro conjI)
    apply (rule h) apply (rule n) apply (rule e) apply (rule t1) apply (rule l1) apply (rule t2)
    apply (rule l2) apply (rule t3) apply (rule l3) apply (rule t4) apply (rule l4) apply (rule t5)
    apply (rule l5) apply (rule w(1)) apply (rule w(2)) apply (rule w(3)) apply (rule g1)
    apply (rule g2)
    done
qed

subsection \<open>The bare flag\<close>

lemma readNumericEscape_loop_consumes:
  "readNumericEscape_loop n rs b = (res, b1) \<Longrightarrow> \<exists>pre. b = pre @ b1"
proof (induction n rs b rule: readNumericEscape_loop.induct)
  case (3 n rs r b)
  then obtain pre where "b = pre @ b1" by auto
  then have "r # b = (r # pre) @ b1" by simp
  then show ?case by blast
qed auto

lemma readOctalEscape_loop_consumes:
  "readOctalEscape_loop n rs b = (res, b1) \<Longrightarrow> \<exists>pre. b = pre @ b1"
proof (induction n rs b rule: readOctalEscape_loop.induct)
  case (3 n rs r b)
  show ?case
  proof (cases "r \<ge> 48 \<and> r < 56")
    case True
    with 3 obtain pre where "b = pre @ b1" by auto
    then have "r # b = (r # pre) @ b1" by simp
    then show ?thesis by blast
  next
    case False
    with 3 show ?thesis by auto
  qed
qed auto

lemma readNumericEscape_consumes:
  "readNumericEscape b n = (res, b1) \<Longrightarrow> \<exists>pre. b = pre @ b1"
  by (auto simp: readNumericEscape_def split: prod.splits sum.splits
      dest: readNumericEscape_loop_consumes)

lemma readOctalEscape_consumes:
  "readOctalEscape b = (res, b1) \<Longrightarrow> \<exists>pre. b = pre @ b1"
  by (auto simp: readOctalEscape_def split: prod.splits sum.splits if_splits
      dest: readOctalEscape_loop_consumes)

lemma readEscapeSequence_consumes:
  assumes "readEscapeSequence nd b = (res, b1)"
  shows "\<exists>pre. b = pre @ b1"
proof (cases b)
  case Nil
  with assms show ?thesis by (simp add: readEscapeSequence_def)
next
  case (Cons r rs)
  have c: "\<exists>pre. r # rs = pre @ b1" if "\<exists>pre. rs = pre @ b1"
  proof -
    from that obtain pre where "rs = pre @ b1" by blast
    then have "r # rs = (r # pre) @ b1" by simp
    then show ?thesis by blast
  qed
  have d: "\<exists>pre. r # rs = pre @ b1" if "rs = b1"
    using that c by blast
  from assms Cons show ?thesis
    by (auto simp: readEscapeSequence_def split: if_splits
        intro: c d dest: readNumericEscape_consumes readOctalEscape_consumes)
qed

lemma readBareString_loop_bare:
  "readBareString_loop nd str bare b = (Inr tok, b1) \<Longrightarrow>
     \<exists>pre. b = pre @ b1 \<and> Command tok = None \<and> (Bare tok \<longleftrightarrow> bare \<and> 92 \<notin> set pre)
       \<and> (92 \<notin> set pre \<longrightarrow> Text tok = foldl WriteRune str pre)"
proof (induction nd str bare b rule: readBareString_loop.induct)
  case (1 nd str bare)
  then show ?case by auto
next
  case (2 nd str bare r b)
  show ?case
  proof (cases "IsSpace r \<or> r = 41")
    case True
    with 2(3) have "tok = Token None str bare" "b1 = r # b" by auto
    then have "r # b = [] @ b1 \<and> Command tok = None \<and> (Bare tok \<longleftrightarrow> bare \<and> 92 \<notin> set [])
       \<and> (92 \<notin> set [] \<longrightarrow> Text tok = foldl WriteRune str [])" by simp
    then show ?thesis by blast
  next
    case stop: False
    show ?thesis
    proof (cases "r = 92")
      case True
      obtain res b2 where e: "readEscapeSequence nd b = (res, b2)"
        by (cases "readEscapeSequence nd b")
      with 2(3) stop True obtain seq where res: "res = Inr seq"
        by (cases res) auto
      from e obtain p where p: "b = p @ b2" using readEscapeSequence_consumes by blast
      have "readBareString_loop nd (WriteRune str seq) False b2 = (Inr tok, b1)"
        using 2(3) stop True e res by simp
      with 2(1) stop True e res
      obtain pre where pre: "b2 = pre @ b1" "Command tok = None" "\<not> Bare tok" by auto
      have "r # b = (r # p @ pre) @ b1" using p pre by simp
      moreover have "92 \<in> set (r # p @ pre)" using True by simp
      ultimately show ?thesis using pre by blast
    next
      case False
      have "readBareString_loop nd (WriteRune str r) bare b = (Inr tok, b1)"
        using 2(3) stop False by simp
      with 2(2) stop False obtain pre where pre: "b = pre @ b1" "Command tok = None"
        "Bare tok \<longleftrightarrow> bare \<and> 92 \<notin> set pre"
        "92 \<notin> set pre \<longrightarrow> Text tok = foldl WriteRune (WriteRune str r) pre" by auto
      have "r # b = (r # pre) @ b1" using pre by simp
      moreover have "Bare tok \<longleftrightarrow> bare \<and> 92 \<notin> set (r # pre)" using pre False by simp
      moreover have "92 \<notin> set (r # pre) \<longrightarrow> Text tok = foldl WriteRune str (r # pre)"
        using pre by simp
      ultimately show ?thesis using pre by blast
    qed
  qed
qed

text \<open>
  C7. A bare string consumes a prefix of the buffer, and its token is bare exactly when
  that prefix holds no backslash, that is when the escape decoder was never called for it
  (the decoder is called for the first backslash, whatever it decodes to); without a
  backslash the text of the token is the prefix itself. Every rune other than the two
  quotes and the parentheses starts a bare string. The token of a quoted string and the
  token of a group are never bare.
\<close>

theorem bare_flag:
  "(readBareString nd b = (Inr tok, b1) \<longrightarrow>
      (\<exists>pre. b = pre @ b1 \<and> Command tok = None \<and> (Bare tok \<longleftrightarrow> 92 \<notin> set pre)
          \<and> (92 \<notin> set pre \<longrightarrow> Text tok = foldl WriteRune [] pre)))
   \<and> (r \<noteq> 34 \<and> r \<noteq> 39 \<and> r \<noteq> 40 \<and> r \<noteq> 41 \<longrightarrow>
        readNextToken nd (r # b) = readBareString nd (r # b))
   \<and> ((r = 34 \<or> r = 39 \<or> r = 40) \<and> readNextToken nd (r # b) = (Inr tok, b1) \<longrightarrow> \<not> Bare tok)"
proof -
  have a: "readBareString nd b = (Inr tok, b1) \<longrightarrow>
      (\<exists>pre. b = pre @ b1 \<and> Command tok = None \<and> (Bare tok \<longleftrightarrow> 92 \<notin> set pre)
          \<and> (92 \<notin> set pre \<longrightarrow> Text tok = foldl WriteRune [] pre))"
    using readBareString_loop_bare [of nd "[]" True b tok b1] by (simp add: readBareString_def)
  have b: "r \<noteq> 34 \<and> r \<noteq> 39 \<and> r \<noteq> 40 \<and> r \<noteq> 41 \<longrightarrow>
        readNextToken nd (r # b) = readBareString nd (r # b)"
    by simp
  have c: "(r = 34 \<or> r = 39 \<or> r = 40) \<and> readNextToken nd (r # b) = (Inr tok, b1) \<longrightarrow> \<not> Bare tok"
    by (auto split: prod.splits sum.splits if_splits)
  from a b c show ?thesis by blast
qed

theorem bare_flag_witness:
  "\<forall>nd. readBareString nd (runes ''abc d'') = (Inr (Token None (runes ''abc'') True), runes '' d'')
     \<and> (\<exists>pre. runes ''abc d'' = pre @ runes '' d'' \<and> 92 \<notin> set pre)
     \<and> readNextToken nd (runes ''a'' @ [92] @ runes ''(c d'')
         = (Inr (Token None (runes ''a(c'') False), runes '' d'')
     \<and> readNextToken nd (runes ''\"if\" d'') = (Inr (Token None (runes ''if'') False), runes '' d'')
     \<and> readNextToken nd (runes ''(a) d'')
         = (Inr (Token (Some [Token None (runes ''a'') True]) [] False), runes '' d'')"
proof
  fix nd
  have r: "readBareString nd (runes ''abc d'') = (Inr (Token None (runes ''abc'') True), runes '' d'')"
    by (simp add: lexer_eval)
  have e: "readNextToken nd (runes ''a'' @ [92] @ runes ''(c d'')
         = (Inr (Token None (runes ''a(c'') False), runes '' d'')"
    by (simp add: lexer_eval readEscapeSequence_def)
  have q: "readNextToken nd (runes ''\"if\" d'') = (Inr (Token None (runes ''if'') False), runes '' d'')"
    by (simp add: lexer_eval)
  have g: "readNextToken nd (runes ''(a) d'')
         = (Inr (Token (Some [Token None (runes ''a'') True]) [] False), runes '' d'')"
    by (simp add: lexer_eval)
  have "readBareString nd (runes ''abc d'') = (Inr (Token None (runes ''abc'') True), runes '' d'')
      \<longrightarrow> (\<exists>pre. runes ''abc d'' = pre @ runes '' d''
            \<and> Command (Token None (runes ''abc'') True) = None
            \<and> (Bare (Token None (runes ''abc'') True) \<longleftrightarrow> 92 \<notin> set pre)
            \<and> (92 \<notin> set pre \<longrightarrow> Text (Token None (runes ''abc'') True) = foldl WriteRune [] pre))"
    using bare_flag [where nd = nd and b = "runes ''abc d''" and r = 97
      and tok = "Token None (runes ''abc'') True" and ?b1.0 = "runes '' d''"]
    by (rule conjunct1)
  with r obtain pre where "runes ''abc d'' = pre @ runes '' d''"
    "Bare (Token None (runes ''abc'') True) \<longleftrightarrow> 92 \<notin> set pre" by blast
  then have "\<exists>pre. runes ''abc d'' = pre @ runes '' d'' \<and> 92 \<notin> set pre" by auto
  with r e q g
  show "readBareString nd (runes ''abc d'') = (Inr (Token None (runes ''abc'') True), runes '' d'')
     \<and> (\<exists>pre. runes ''abc d'' = pre @ runes '' d'' \<and> 92 \<notin> set pre)
     \<and> readNextToken nd (runes ''a'' @ [92] @ runes ''(c d'')
         = (Inr (Token None (runes ''a(c'') False), runes '' d'')
     \<and> readNextToken nd (runes ''\"if\" d'') = (Inr (Token None (runes ''if'') False), runes '' d'')
     \<and> readNextToken nd (runes ''(a) d'')
         = (Inr (Token (Some [Token None (runes ''a'') True]) [] False), runes '' d'')"
    by blast
qed

subsection \<open>The escape decoder\<close>

lemma valid_digit_value:
  "valid_digit base c \<Longrightarrow> digit_value c = Some (digit_of c) \<and> 0 \<le> digit_of c \<and> digit_of c < base"
  by (auto simp: valid_digit_def digit_value_def digit_of_def split: if_splits)

lemma foldl_digits_mono:
  "\<forall>c \<in> set cs. valid_digit base c \<Longrightarrow> 0 \<le> n \<Longrightarrow> 1 \<le> base \<Longrightarrow>
   n \<le> foldl (\<lambda>n c. n * base + digit_of c) n cs"
proof (induction cs arbitrary: n)
  case Nil
  then show ?case by simp
next
  case (Cons c cs)
  have d: "0 \<le> digit_of c" using Cons.prems(1) valid_digit_value [of base c] by simp
  have "n * 1 \<le> n * base" using Cons.prems by (intro mult_left_mono) auto
  then have s: "n \<le> n * base + digit_of c" using d by simp
  then have "0 \<le> n * base + digit_of c" using Cons.prems by simp
  then have "n * base + digit_of c \<le> foldl (\<lambda>n c. n * base + digit_of c) (n * base + digit_of c) cs"
    using Cons.IH [of "n * base + digit_of c"] Cons.prems by simp
  with s show ?case by simp
qed

lemma div_succ_mult_gt:
  assumes "0 < (b :: int)"
  shows "a < (a div b + 1) * b"
proof -
  define q where "q = a div b"
  define r where "r = a mod b"
  have "a = q * b + r" unfolding q_def r_def by simp
  moreover have "r < b" unfolding r_def using assms by simp
  ultimately have "a < (q + 1) * b" by (simp add: algebra_simps)
  then show ?thesis unfolding q_def .
qed

lemma cutoff_overflow:
  assumes "2 \<le> base" "n \<ge> (2 ^ 64 - 1) div base + 1"
  shows "(n :: int) * base \<ge> 2 ^ 64"
proof -
  have b: "0 < base" using assms by simp
  have "(2 ^ 64 - 1 :: int) < ((2 ^ 64 - 1) div base + 1) * base"
    using b by (rule div_succ_mult_gt)
  moreover have "((2 ^ 64 - 1) div base + 1) * base \<le> n * base"
    using assms b by (intro mult_right_mono) auto
  ultimately show ?thesis by linarith
qed

lemma ParseUint_loop_digits:
  assumes "\<forall>c \<in> set pre. valid_digit base c" "0 \<le> n" "2 \<le> base" "maxVal < 2 ^ 64"
    "n \<le> maxVal"
  shows "ParseUint_loop s0 base maxVal n (pre @ rest) =
     (if foldl (\<lambda>n c. n * base + digit_of c) n pre \<le> maxVal
      then ParseUint_loop s0 base maxVal (foldl (\<lambda>n c. n * base + digit_of c) n pre) rest
      else Inl (NumErrorRange s0))"
  using assms
proof (induction pre arbitrary: n)
  case Nil
  then show ?case by simp
next
  case (Cons c pre)
  let ?n1 = "n * base + digit_of c"
  have v: "digit_value c = Some (digit_of c)" "0 \<le> digit_of c" "digit_of c < base"
    using Cons.prems(1) valid_digit_value [of base c] by simp_all
  have n1: "0 \<le> ?n1" using Cons.prems v by simp
  have mono: "?n1 \<le> foldl (\<lambda>n c. n * base + digit_of c) ?n1 pre"
    using foldl_digits_mono [of pre base ?n1] Cons.prems n1 by simp
  show ?case
  proof (cases "n \<ge> (2 ^ 64 - 1) div base + 1")
    case True
    then have "n * base \<ge> 2 ^ 64" using cutoff_overflow Cons.prems by simp
    then have "?n1 > maxVal" using v Cons.prems by simp
    with mono True v show ?thesis by simp
  next
    case nc: False
    show ?thesis
    proof (cases "?n1 \<ge> 2 ^ 64 \<or> ?n1 > maxVal")
      case True
      then have "?n1 > maxVal" using Cons.prems by auto
      with mono True nc v show ?thesis by simp
    next
      case False
      then show ?thesis
        using Cons.IH [of ?n1] Cons.prems n1 nc v by simp
    qed
  qed
qed

lemma hex_digit_valid: "hex_digit c \<longleftrightarrow> valid_digit 16 c"
  by (auto simp: hex_digit_def valid_digit_def digit_value_def split: if_splits)

lemma octal_digit_valid: "octal_digit c \<longleftrightarrow> valid_digit 8 c"
  by (auto simp: octal_digit_def valid_digit_def digit_value_def split: if_splits)

lemma foldl_digits_bound:
  "\<forall>c \<in> set cs. valid_digit base c \<Longrightarrow> 0 \<le> n \<Longrightarrow> 1 \<le> base \<Longrightarrow> n < base ^ j \<Longrightarrow>
   foldl (\<lambda>n c. n * base + digit_of c) n cs < base ^ (j + length cs)"
proof (induction cs arbitrary: n j)
  case Nil
  then show ?case by simp
next
  case (Cons c cs)
  have v: "0 \<le> digit_of c" "digit_of c < base"
    using Cons.prems(1) valid_digit_value [of base c] by simp_all
  have "n + 1 \<le> base ^ j" using Cons.prems by simp
  then have "(n + 1) * base \<le> base ^ j * base" using Cons.prems by (intro mult_right_mono) auto
  then have "n * base + digit_of c < base ^ Suc j" using v by (simp add: algebra_simps)
  moreover have "0 \<le> n * base + digit_of c" using v Cons.prems by simp
  ultimately show ?case using Cons.IH [of "n * base + digit_of c" "Suc j"] Cons.prems by simp
qed

lemma number_value_bound:
  "\<forall>c \<in> set cs. valid_digit base c \<Longrightarrow> 1 \<le> base \<Longrightarrow> number_value base cs < base ^ length cs"
  using foldl_digits_bound [of cs base 0 0] by (simp add: number_value_def)

lemma number_value_nonneg:
  "\<forall>c \<in> set cs. valid_digit base c \<Longrightarrow> 1 \<le> base \<Longrightarrow> 0 \<le> number_value base cs"
  using foldl_digits_mono [of cs base 0] by (simp add: number_value_def)

lemma ParseUint_digits:
  assumes "\<forall>c \<in> set cs. valid_digit base c" "cs \<noteq> []" "2 \<le> base" "bitSize \<le> 63"
  shows "ParseUint cs base bitSize =
     (if number_value base cs \<le> 2 ^ bitSize - 1 then Inr (number_value base cs)
      else Inl (NumErrorRange cs))"
proof -
  have "(2 :: int) ^ bitSize \<le> 2 ^ 63" using assms(4) by (intro power_increasing) auto
  then have m: "(2 :: int) ^ bitSize - 1 < 2 ^ 64" by simp
  have z: "(0 :: int) \<le> 2 ^ bitSize - 1" by simp
  show ?thesis
    using ParseUint_loop_digits [of cs base 0 "2 ^ bitSize - 1" cs "[]"] assms m z
    by (simp add: ParseUint_def number_value_def)
qed

lemma ParseUint_syntax:
  assumes "\<forall>c \<in> set pre. valid_digit base c" "\<not> valid_digit base c" "2 \<le> base"
    "bitSize \<le> 63" "number_value base pre \<le> 2 ^ bitSize - 1"
  shows "ParseUint (pre @ c # post) base bitSize = Inl (NumErrorSyntax (pre @ c # post))"
proof -
  have "(2 :: int) ^ bitSize \<le> 2 ^ 63" using assms(4) by (intro power_increasing) auto
  then have m: "(2 :: int) ^ bitSize - 1 < 2 ^ 64" by simp
  have z: "(0 :: int) \<le> 2 ^ bitSize - 1" by simp
  have "ParseUint_loop (pre @ c # post) base (2 ^ bitSize - 1) (number_value base pre) (c # post)
      = Inl (NumErrorSyntax (pre @ c # post))"
    using assms(2) by (auto simp: valid_digit_def split: option.splits)
  then show ?thesis
    using ParseUint_loop_digits [of pre base 0 "2 ^ bitSize - 1" "pre @ c # post" "c # post"] assms m z
    by (simp add: ParseUint_def number_value_def)
qed

lemma ParseUint_hex:
  assumes "length cs = k" "0 < k" "k \<le> 8"
  shows "ParseUint cs 16 (k * 4) =
     (if list_all hex_digit cs then Inr (number_value 16 cs) else Inl (NumErrorSyntax cs))"
proof (cases "list_all hex_digit cs")
  case True
  then have v: "\<forall>c \<in> set cs. valid_digit 16 c" by (simp add: list_all_iff hex_digit_valid)
  have "number_value 16 cs < 16 ^ length cs" using v by (intro number_value_bound) auto
  moreover have "(16 :: int) ^ k = 2 ^ (k * 4)"
    using power_mult [of "2 :: int" 4 k] by (simp add: mult.commute)
  ultimately have "number_value 16 cs \<le> 2 ^ (k * 4) - 1" using assms by simp
  moreover have "cs \<noteq> []" using assms by auto
  ultimately show ?thesis using ParseUint_digits [of cs 16 "k * 4"] v True assms by simp
next
  case False
  define pre where "pre = takeWhile hex_digit cs"
  define suf where "suf = dropWhile hex_digit cs"
  have cs: "cs = pre @ suf" by (simp add: pre_def suf_def)
  have "suf \<noteq> []" using False by (simp add: suf_def list_all_iff)
  then obtain c post where suf: "suf = c # post" by (cases suf) auto
  have nc: "\<not> hex_digit c" using suf hd_dropWhile [of hex_digit cs] by (simp add: suf_def)
  have v: "\<forall>c \<in> set pre. valid_digit 16 c"
    using set_takeWhileD [of _ hex_digit cs] by (auto simp: pre_def hex_digit_valid)
  have "number_value 16 pre < 16 ^ length pre" using v by (intro number_value_bound) auto
  moreover have "(16 :: int) ^ length pre \<le> 16 ^ k"
    using cs assms by (intro power_increasing) auto
  moreover have "(16 :: int) ^ k = 2 ^ (k * 4)"
    using power_mult [of "2 :: int" 4 k] by (simp add: mult.commute)
  ultimately have "number_value 16 pre \<le> 2 ^ (k * 4) - 1" by simp
  then show ?thesis
    using ParseUint_syntax [of pre 16 c "k * 4" post] v nc False assms cs suf
    by (simp add: hex_digit_valid)
qed

lemma readNumericEscape_loop_eq:
  "readNumericEscape_loop n rs b =
     (if length b < n then (Inl ErrEscapeCodeUnderflow, []) else (Inr (rs @ take n b), drop n b))"
  by (induction n rs b rule: readNumericEscape_loop.induct) auto

lemma readOctalEscape_loop_eq:
  "readOctalEscape_loop n rs b =
     (rs @ takeWhile octal_digit (take n b),
      drop (length (takeWhile octal_digit (take n b))) b)"
  by (induction n rs b rule: readOctalEscape_loop.induct) (auto simp: octal_digit_def)

lemma readNumericEscape_eq:
  assumes "0 < n" "n \<le> 8"
  shows "readNumericEscape b n =
     (if length b < n then (Inl ErrEscapeCodeUnderflow, [])
      else if list_all hex_digit (take n b)
        then (Inr (rune_of_uint64 (number_value 16 (take n b))), drop n b)
      else (Inl (NumErrorSyntax (take n b)), drop n b))"
proof (cases "length b < n")
  case True
  then show ?thesis by (simp add: readNumericEscape_def readNumericEscape_loop_eq)
next
  case False
  then have "length (take n b) = n" by simp
  then have "ParseUint (take n b) 16 (n * 4) =
     (if list_all hex_digit (take n b) then Inr (number_value 16 (take n b))
      else Inl (NumErrorSyntax (take n b)))"
    using assms by (rule ParseUint_hex)
  with False show ?thesis by (simp add: readNumericEscape_def readNumericEscape_loop_eq)
qed

lemma readOctalEscape_eq:
  assumes "octal_digit c"
  shows "readOctalEscape (c # b) =
     (let ds = takeWhile octal_digit (take 3 (c # b))
      in (if number_value 8 ds \<le> 255 then Inr (number_value 8 ds) else Inl (NumErrorRange ds),
          drop (length ds) (c # b)))"
proof -
  define ds where "ds = takeWhile octal_digit (take 3 (c # b))"
  have ne: "ds \<noteq> []" using assms by (simp add: ds_def)
  have v: "\<forall>c \<in> set ds. valid_digit 8 c"
    using set_takeWhileD [of _ octal_digit "take 3 (c # b)"] by (auto simp: ds_def octal_digit_valid)
  have p: "ParseUint ds 8 8 =
     (if number_value 8 ds \<le> 255 then Inr (number_value 8 ds) else Inl (NumErrorRange ds))"
    using ParseUint_digits [of ds 8 8] v ne by simp
  have "0 \<le> number_value 8 ds" using v by (intro number_value_nonneg) auto
  then have r: "number_value 8 ds \<le> 255 \<Longrightarrow> rune_of_uint64 (number_value 8 ds) = number_value 8 ds"
    by (simp add: rune_of_uint64_def)
  have "readOctalEscape (c # b) =
      (if number_value 8 ds \<le> 255 then Inr (number_value 8 ds) else Inl (NumErrorRange ds),
          drop (length ds) (c # b))"
  proof -
    have l: "readOctalEscape_loop 3 [] (c # b) = (ds, drop (length ds) (c # b))"
      by (simp only: readOctalEscape_loop_eq ds_def append_Nil)
    show ?thesis using ne p r by (simp add: readOctalEscape_def l)
  qed
  then show ?thesis by (simp add: ds_def Let_def)
qed

lemma rune_of_uint64_small: "0 \<le> v \<Longrightarrow> v < 2 ^ 31 \<Longrightarrow> rune_of_uint64 v = v"
  by (simp add: rune_of_uint64_def)

text \<open>
  C6, as the code has it. Nothing after the backslash is an underflow. The runes \<open>( ) ? '
  "\<close>, space and backslash stand for themselves, and \<open>a b f n r t v\<close> for bell, backspace,
  form feed, newline, carriage return, tab and vertical tab. After \<open>x\<close>, \<open>u\<close> and \<open>U\<close> exactly
  2, 4 and 8 runes are read: the end of the input before that is an underflow, a rune that
  is no hex digit among them is a syntax error of \<open>ParseUint\<close>, and otherwise the result
  is their value in base 16 as a 32-bit rune (the value itself below \<open>2 ^ 31\<close>). An octal
  digit starts a run of one to three octal digits, ended by another rune, which is left in
  the buffer, or by the end of the input: the result is its value in base 8 when that is
  at most 255, and a range error of \<open>ParseUint\<close> above. Any other rune that
  \<open>unicode.IsDigit\<close> rejects, and \<open>8\<close> and \<open>9\<close>, is an invalid-escape error.
\<close>

theorem escape_table:
  "readEscapeSequence nd [] = (Inl ErrEscapeCodeUnderflow, [])
   \<and> (c \<in> {40, 41, 63, 39, 34, 32, 92} \<longrightarrow> readEscapeSequence nd (c # b) = (Inr c, b))
   \<and> readEscapeSequence nd (97 # b) = (Inr 7, b)
   \<and> readEscapeSequence nd (98 # b) = (Inr 8, b)
   \<and> readEscapeSequence nd (102 # b) = (Inr 12, b)
   \<and> readEscapeSequence nd (110 # b) = (Inr 10, b)
   \<and> readEscapeSequence nd (114 # b) = (Inr 13, b)
   \<and> readEscapeSequence nd (116 # b) = (Inr 9, b)
   \<and> readEscapeSequence nd (118 # b) = (Inr 11, b)
   \<and> ((c, n) \<in> {(120, 2), (117, 4), (85, 8)} \<longrightarrow>
        readEscapeSequence nd (c # b) =
          (if length b < n then (Inl ErrEscapeCodeUnderflow, [])
           else if list_all hex_digit (take n b)
             then (Inr (rune_of_uint64 (number_value 16 (take n b))), drop n b)
           else (Inl (NumErrorSyntax (take n b)), drop n b)))
   \<and> (0 \<le> v \<and> v < 2 ^ 31 \<longrightarrow> rune_of_uint64 v = v)
   \<and> (octal_digit c \<longrightarrow>
        readEscapeSequence nd (c # b) =
          (let ds = takeWhile octal_digit (take 3 (c # b))
           in (if number_value 8 ds \<le> 255 then Inr (number_value 8 ds)
               else Inl (NumErrorRange ds),
               drop (length ds) (c # b))))
   \<and> (c \<notin> {40, 41, 63, 39, 34, 32, 92, 97, 98, 102, 110, 114, 116, 118, 120, 117, 85}
        \<and> (\<not> IsDigit nd c \<or> c = 56 \<or> c = 57) \<longrightarrow>
        readEscapeSequence nd (c # b) = (Inl (InvalidEscape c), b))"
proof -
  have hex: "(c, n) \<in> {(120, 2), (117, 4), (85, 8)} \<longrightarrow>
        readEscapeSequence nd (c # b) =
          (if length b < n then (Inl ErrEscapeCodeUnderflow, [])
           else if list_all hex_digit (take n b)
             then (Inr (rune_of_uint64 (number_value 16 (take n b))), drop n b)
           else (Inl (NumErrorSyntax (take n b)), drop n b))"
    using readNumericEscape_eq [of 2 b] readNumericEscape_eq [of 4 b] readNumericEscape_eq [of 8 b]
    by (auto simp: readEscapeSequence_def)
  have oct: "octal_digit c \<longrightarrow>
        readEscapeSequence nd (c # b) =
          (let ds = takeWhile octal_digit (take 3 (c # b))
           in (if number_value 8 ds \<le> 255 then Inr (number_value 8 ds)
               else Inl (NumErrorRange ds),
               drop (length ds) (c # b)))"
  proof
    assume o: "octal_digit c"
    then have "readEscapeSequence nd (c # b) = readOctalEscape (c # b)"
      by (auto simp: readEscapeSequence_def octal_digit_def IsDigit_def)
    with o show "readEscapeSequence nd (c # b) =
          (let ds = takeWhile octal_digit (take 3 (c # b))
           in (if number_value 8 ds \<le> 255 then Inr (number_value 8 ds)
               else Inl (NumErrorRange ds),
               drop (length ds) (c # b)))"
      by (simp add: readOctalEscape_eq)
  qed
  have other: "c \<notin> {40, 41, 63, 39, 34, 32, 92, 97, 98, 102, 110, 114, 116, 118, 120, 117, 85}
        \<and> (\<not> IsDigit nd c \<or> c = 56 \<or> c = 57) \<longrightarrow>
        readEscapeSequence nd (c # b) = (Inl (InvalidEscape c), b)"
    by (auto simp: readEscapeSequence_def)
  have pass: "c \<in> {40, 41, 63, 39, 34, 32, 92} \<longrightarrow> readEscapeSequence nd (c # b) = (Inr c, b)"
    by (auto simp: readEscapeSequence_def)
  have small: "0 \<le> v \<and> v < 2 ^ 31 \<longrightarrow> rune_of_uint64 v = v"
    by (simp add: rune_of_uint64_small)
  have letters: "readEscapeSequence nd (97 # b) = (Inr 7, b)"
    "readEscapeSequence nd (98 # b) = (Inr 8, b)"
    "readEscapeSequence nd (102 # b) = (Inr 12, b)"
    "readEscapeSequence nd (110 # b) = (Inr 10, b)"
    "readEscapeSequence nd (114 # b) = (Inr 13, b)"
    "readEscapeSequence nd (116 # b) = (Inr 9, b)"
    "readEscapeSequence nd (118 # b) = (Inr 11, b)"
    by (simp_all add: readEscapeSequence_def)
  have empty: "readEscapeSequence nd [] = (Inl ErrEscapeCodeUnderflow, [])"
    by (simp add: readEscapeSequence_def)
  from empty pass letters hex small oct other show ?thesis by blast
qed

theorem escape_table_witness:
  "\<forall>nd. readEscapeSequence nd (runes ''x41'') = (Inr 65, [])
     \<and> readEscapeSequence nd (runes ''101'') = (Inr 65, [])
     \<and> readEscapeSequence nd (runes ''n'') = (Inr 10, [])
     \<and> readEscapeSequence nd (runes ''8'') = (Inl (InvalidEscape 56), [])
     \<and> readEscapeSequence nd (runes ''x4'') = (Inl ErrEscapeCodeUnderflow, [])
     \<and> readEscapeSequence nd (runes ''xg1'') = (Inl (NumErrorSyntax (runes ''g1'')), [])
     \<and> readEscapeSequence nd (runes ''129'') = (Inr 10, runes ''9'')
     \<and> readEscapeSequence nd (runes ''(x'') = (Inr 40, runes ''x'')"
proof
  fix nd
  have x41: "readEscapeSequence nd (runes ''x41'') = (Inr 65, [])"
    using escape_table [where nd = nd and c = 120 and n = 2 and b = "runes ''41''" and v = 65]
    by (simp add: hex_digit_def number_value_def digit_of_def)
  have o101: "readEscapeSequence nd (runes ''101'') = (Inr 65, [])"
    using escape_table [where nd = nd and c = 49 and n = 2 and b = "runes ''01''" and v = 65]
    by (simp add: octal_digit_def number_value_def digit_of_def)
  have n: "readEscapeSequence nd (runes ''n'') = (Inr 10, [])"
    using escape_table [where nd = nd and c = 110 and n = 2 and b = "[]" and v = 65]
    by simp
  have e8: "readEscapeSequence nd (runes ''8'') = (Inl (InvalidEscape 56), [])"
    using escape_table [where nd = nd and c = 56 and n = 2 and b = "[]" and v = 65]
    by simp
  have x4: "readEscapeSequence nd (runes ''x4'') = (Inl ErrEscapeCodeUnderflow, [])"
    using escape_table [where nd = nd and c = 120 and n = 2 and b = "runes ''4''" and v = 65]
    by simp
  have xg: "readEscapeSequence nd (runes ''xg1'') = (Inl (NumErrorSyntax (runes ''g1'')), [])"
    using escape_table [where nd = nd and c = 120 and n = 2 and b = "runes ''g1''" and v = 65]
    by (simp add: hex_digit_def)
  have o129: "readEscapeSequence nd (runes ''129'') = (Inr 10, runes ''9'')"
    using escape_table [where nd = nd and c = 49 and n = 2 and b = "runes ''29''" and v = 65]
    by (simp add: octal_digit_def number_value_def digit_of_def)
  have p: "readEscapeSequence nd (runes ''(x'') = (Inr 40, runes ''x'')"
    using escape_table [where nd = nd and c = 40 and n = 2 and b = "runes ''x''" and v = 65]
    by simp
  from x41 o101 n e8 x4 xg o129 p
  show "readEscapeSequence nd (runes ''x41'') = (Inr 65, [])
     \<and> readEscapeSequence nd (runes ''101'') = (Inr 65, [])
     \<and> readEscapeSequence nd (runes ''n'') = (Inr 10, [])
     \<and> readEscapeSequence nd (runes ''8'') = (Inl (InvalidEscape 56), [])
     \<and> readEscapeSequence nd (runes ''x4'') = (Inl ErrEscapeCodeUnderflow, [])
     \<and> readEscapeSequence nd (runes ''xg1'') = (Inl (NumErrorSyntax (runes ''g1'')), [])
     \<and> readEscapeSequence nd (runes ''129'') = (Inr 10, runes ''9'')
     \<and> readEscapeSequence nd (runes ''(x'') = (Inr 40, runes ''x'')"
    by blast
qed

theorem escape_octal_range_counterexample:
  "\<forall>nd. readEscapeSequence nd (runes ''400'') = (Inl (NumErrorRange (runes ''400'')), [])"
  by (simp add: readEscapeSequence_def IsDigit_def readOctalEscape_def ParseUint_def
      digit_value_def numeral_3_eq_3)

text \<open>
  A decimal digit beyond Latin-1 passes the test of \<open>unicode.IsDigit\<close> and reaches
  \<open>readOctalEscape\<close>, which reads no octal digit: the error is the underflow, and the rune
  is left in the buffer.
\<close>

lemma escaped_digit_beyond_latin1:
  "255 < c \<Longrightarrow> nd c \<Longrightarrow> readEscapeSequence nd (c # b) = (Inl ErrEscapeCodeUnderflow, c # b)"
  by (simp add: readEscapeSequence_def IsDigit_def readOctalEscape_def numeral_3_eq_3)

subsection \<open>Curly braces\<close>

lemma close_else_open:
  "parseLine nd (runes ''} else {'') num =
     Inr \<lparr>BlockOpen = True, BlockClose = True, Tokens = [Token None (runes ''else'') True],
          Number = num\<rparr>"
  by (simp add: parseLine_def processCurlyBraces_def BlockInitiatingKeywords_def lexer_eval)

lemma keyword_without_brace:
  "parseLine nd (runes ''if a b'') num = Inl ErrMissingOpenCurlyBrace"
  by (simp add: parseLine_def processCurlyBraces_def BlockInitiatingKeywords_def lexer_eval)

text \<open>
  C3, where the code departs from it. The first token \<open>}\<close> and the keyword are tested with
  their \<open>Bare\<close> flag, the last token \<open>{\<close> is tested by its text only: the line
  \<open>if a "{"\<close>, whose last token is a quoted string, is parsed as the opening of a block.
\<close>

theorem open_brace_not_bare:
  "parseLine_loop nd [] (runes ''if a \"{\"'') =
     Inr [Token None (runes ''if'') True, Token None (runes ''a'') True,
          Token None (runes ''{'') False]
   \<and> parseLine nd (runes ''if a \"{\"'') num =
     Inr \<lparr>BlockOpen = True, BlockClose = False,
          Tokens = [Token None (runes ''if'') True, Token None (runes ''a'') True],
          Number = num\<rparr>"
  by (simp add: parseLine_def processCurlyBraces_def BlockInitiatingKeywords_def lexer_eval)

section \<open>The numeric builtins\<close>

lemma quotient_of_minus_int: "quotient_of (- rat_of_int i) = (- i, 1)"
  using quotient_of_rat_of_int [of "- i"] by simp

lemma Factorial_loop_prod:
  "i \<ge> 1 \<Longrightarrow> Factorial_loop i bound res = res * (\<Prod>k = i..<bound. k)"
proof (induction i bound res rule: Factorial_loop.induct)
  case (1 i bound res)
  show ?case
  proof (cases "i < bound")
    case True
    then have "{i..<bound} = insert i {i + 1..<bound}" by auto
    then have "(\<Prod>k = i..<bound. k) = i * (\<Prod>k = i + 1..<bound. k)" by simp
    with 1 True show ?thesis by (simp add: Factorial_loop.simps [of i bound res])
  next
    case False
    then show ?thesis by (simp add: Factorial_loop.simps [of i bound res])
  qed
qed

lemma fact_prod_int: "int (fact n) = (\<Prod>k = 2..<int n + 1. k)"
proof (induction n)
  case 0
  then show ?case by simp
next
  case (Suc n)
  show ?case
  proof (cases "n = 0")
    case True
    then show ?thesis by simp
  next
    case False
    then have "{2..<int (Suc n) + 1} = insert (int n + 1) {2..<int n + 1}" by auto
    then have "(\<Prod>k = 2..<int (Suc n) + 1. k) = (int n + 1) * (\<Prod>k = 2..<int n + 1. k)"
      by simp
    with Suc show ?thesis by (simp add: algebra_simps)
  qed
qed

lemma Factorial_integer_path:
  assumes "0 \<le> n" "n < 65536"
  shows "Factorial (env\<lparr>fp_of_rat := Finite\<rparr>) (NInt n) = Inr (NInt (int (fact (nat (n - 1)))))"
proof -
  have "Factorial (env\<lparr>fp_of_rat := Finite\<rparr>) (NInt n) = Inr (NInt (Factorial_loop 2 n 1))"
    using assms
    by (simp add: Factorial_def Number_Int_def CompareNumbers_def exact_value_def NewNumberInt_def
      NewNumberBig_def Number_Float_def go_int_def)
  moreover have "Factorial_loop 2 n 1 = (\<Prod>k = 2..<n. k)"
    by (simp add: Factorial_loop_prod)
  moreover have "int (fact (nat (n - 1))) = (\<Prod>k = 2..<n. k)"
  proof (cases "n \<ge> 1")
    case True
    then show ?thesis using fact_prod_int [of "nat (n - 1)"] by simp
  next
    case False
    then show ?thesis by simp
  qed
  ultimately show ?thesis by simp
qed

text \<open>The other paths of \<open>Factorial\<close>: the ceiling, and the fall-back to \<open>math.Gamma\<close>.\<close>

lemma Factorial_too_big: "65536 \<le> i \<Longrightarrow> Factorial env (NInt i) = Inl ArgumentTooBig"
  by (simp add: Factorial_def Number_Int_def CompareNumbers_def exact_value_def NewNumberInt_def)

lemma Factorial_negative:
  "i < 0 \<Longrightarrow> Factorial env (NInt i) =
     (if fp_gamma env (fp_of_rat env (of_int i)) \<in> {NaN, PosInf, NegInf} then Inl CannotComputeGamma
      else Inr (NFloat (fp_gamma env (fp_of_rat env (of_int i)))))"
  by (simp add: Factorial_def Number_Int_def CompareNumbers_def exact_value_def NewNumberInt_def
      Number_Float_def math_IsNaN_def math_IsInf_def NewNumberFloat_def Let_def)

lemma Factorial_not_integral:
  "Number_Int env n = None \<Longrightarrow> Factorial env n =
     (if fp_gamma env (Number_Float env n) \<in> {NaN, PosInf, NegInf} then Inl CannotComputeGamma
      else Inr (NFloat (fp_gamma env (Number_Float env n))))"
  by (simp add: Factorial_def math_IsNaN_def math_IsInf_def NewNumberFloat_def Let_def)







text \<open>
  C4, as the code has it. \<open>Floor\<close>, \<open>Ceil\<close> and \<open>Round\<close> return an exact integer for every
  float: the floor or the ceiling of a finite one, and 0 for NaN and the infinities;
  \<open>Round\<close> is the floor of the float sum \<open>f + 0.5\<close>, and 0 when that sum is not finite.
  \<open>Abs\<close> returns its argument when it does not compare below zero, and the product of
  \<open>- 1\<close> and the argument otherwise: an exact integer for an exact integer, a rational or
  its negation for a rational, and for an inexact Number an inexact Number, the float
  itself or its float product with \<open>- 1\<close>.
\<close>

theorem rounding_exact:
  "Floor f = NInt (case f of Finite r \<Rightarrow> \<lfloor>r\<rfloor> | _ \<Rightarrow> 0)
   \<and> Ceil f = NInt (case f of Finite r \<Rightarrow> \<lceil>r\<rceil> | _ \<Rightarrow> 0)
   \<and> Round env f = NInt (case fp_add env f (Finite (1 / 2)) of Finite r \<Rightarrow> \<lfloor>r\<rfloor> | _ \<Rightarrow> 0)
   \<and> exact_integer (Floor f) \<and> exact_integer (Ceil f) \<and> exact_integer (Round env f)
   \<and> Floor (Finite r) = NInt \<lfloor>r\<rfloor> \<and> Ceil (Finite r) = NInt \<lceil>r\<rceil>
   \<and> Floor NaN = NInt 0 \<and> Floor PosInf = NInt 0 \<and> Floor NegInf = NInt 0
   \<and> Ceil NaN = NInt 0 \<and> Ceil PosInf = NInt 0 \<and> Ceil NegInf = NInt 0
   \<and> Round (env\<lparr>fp_add := exact_op (+)\<rparr>) (Finite r) = NInt \<lfloor>r + 1 / 2\<rfloor>
   \<and> Abs env (NInt i) = NInt \<bar>i\<bar>
   \<and> Abs env (NRat q) = (if q < 0 then exact_Number (- q) else NRat q)
   \<and> Abs env (NFloat f) =
       (if float_less f (fp_of_rat env 0) then NFloat (fp_mul env (fp_of_rat env (- 1)) f)
        else NFloat f)
   \<and> Abs (env\<lparr>fp_of_rat := Finite\<rparr>) (NFloat (Finite r)) =
       (if r < 0 then NFloat (fp_mul env (Finite (- 1)) (Finite r)) else NFloat (Finite r))
   \<and> Abs (env\<lparr>fp_of_rat := Finite, fp_mul := exact_op (*)\<rparr>) (NFloat (Finite r)) = NFloat (Finite \<bar>r\<bar>)
   \<and> Abs env (NFloat NaN) = NFloat NaN
   \<and> \<not> exact_integer (Abs env (NFloat f))"
proof -
  have v: "Floor f = NInt (case f of Finite r \<Rightarrow> \<lfloor>r\<rfloor> | _ \<Rightarrow> 0)"
    "Ceil f = NInt (case f of Finite r \<Rightarrow> \<lceil>r\<rceil> | _ \<Rightarrow> 0)"
    by (simp_all add: Floor_def Ceil_def NewNumberBig_def Rat_Num_def Rat_SetFloat64_def
        math_Floor_def math_Ceil_def split: float64.splits)
  have rv: "Round env f = NInt (case fp_add env f (Finite (1 / 2)) of Finite r \<Rightarrow> \<lfloor>r\<rfloor> | _ \<Rightarrow> 0)"
    for env
    by (simp add: Round_def NewNumberBig_def Rat_Num_def Rat_SetFloat64_def
        math_Floor_def split: float64.splits)
  have fl: "exact_integer (Floor f)" "exact_integer (Ceil f)" "exact_integer (Round env f)"
    by (simp_all add: exact_integer_def Floor_def Ceil_def Round_def NewNumberBig_def)
  have fin: "Floor (Finite r) = NInt \<lfloor>r\<rfloor>" "Ceil (Finite r) = NInt \<lceil>r\<rceil>"
    by (simp_all add: Floor_def Ceil_def NewNumberBig_def Rat_Num_def Rat_SetFloat64_def
        math_Floor_def math_Ceil_def)
  have nonfin: "Floor NaN = NInt 0" "Floor PosInf = NInt 0" "Floor NegInf = NInt 0"
    "Ceil NaN = NInt 0" "Ceil PosInf = NInt 0" "Ceil NegInf = NInt 0"
    by (simp_all add: Floor_def Ceil_def NewNumberBig_def Rat_Num_def Rat_SetFloat64_def
        math_Floor_def math_Ceil_def)
  have re: "Round (env\<lparr>fp_add := exact_op (+)\<rparr>) (Finite r) = NInt \<lfloor>r + 1 / 2\<rfloor>"
    by (simp add: Round_def NewNumberBig_def Rat_Num_def Rat_SetFloat64_def
        math_Floor_def exact_op_def)
  have ai: "Abs env (NInt i) = NInt \<bar>i\<bar>"
    by (simp add: Abs_def CompareNumbers_def exact_value_def NewNumberInt_def MultiplyNumbers_def
      exact_Number_def quotient_of_minus_int)
  have ar: "Abs env (NRat q) = (if q < 0 then exact_Number (- q) else NRat q)"
    by (simp add: Abs_def CompareNumbers_def exact_value_def NewNumberInt_def MultiplyNumbers_def)
  have afv: "Abs env (NFloat f) =
       (if float_less f (fp_of_rat env 0) then NFloat (fp_mul env (fp_of_rat env (- 1)) f)
        else NFloat f)" for env f
    by (simp add: Abs_def CompareNumbers_def exact_value_def NewNumberInt_def MultiplyNumbers_def
        Number_Float_def)
  have afe: "Abs (env\<lparr>fp_of_rat := Finite\<rparr>) (NFloat (Finite r)) =
       (if r < 0 then NFloat (fp_mul env (Finite (- 1)) (Finite r)) else NFloat (Finite r))"
    by (simp add: afv float_less_def)
  have afx: "Abs (env\<lparr>fp_of_rat := Finite, fp_mul := exact_op (*)\<rparr>) (NFloat (Finite r)) = NFloat (Finite \<bar>r\<bar>)"
    by (simp add: afv float_less_def exact_op_def)
  have an: "Abs env (NFloat NaN) = NFloat NaN"
    by (simp add: afv float_less_def)
  have af: "\<not> exact_integer (Abs env (NFloat f))"
    by (simp add: Abs_def exact_value_def MultiplyNumbers_def exact_integer_def NewNumberInt_def)
  from v rv [of env] fl fin nonfin re ai ar afv [of env f] afe afx an af show ?thesis by blast
qed

theorem abs_not_integer_counterexample:
  "\<forall>env. Abs env (NRat (1 / 2)) = NRat (1 / 2) \<and> \<not> exact_integer (NRat (1 / 2))
     \<and> Abs (env\<lparr>fp_of_rat := Finite\<rparr>) (NFloat (Finite (5 / 2))) = NFloat (Finite (5 / 2))
     \<and> \<not> exact_integer (NFloat (Finite (5 / 2)))"
  by (simp add: Abs_def CompareNumbers_def exact_value_def NewNumberInt_def exact_integer_def
      Number_Float_def float_less_def)

text \<open>
  C1, where the code departs from it. The loop of the integer path runs over \<open>2 \<le> i < n\<close>
  and leaves \<open>n\<close> out: for \<open>0 \<le> n < 65536\<close> the result is the factorial of \<open>n - 1\<close>, and
  \<open>Factorial(5)\<close> is 24.
\<close>

theorem Factorial_of_5:
  "Factorial (env\<lparr>fp_of_rat := Finite\<rparr>) (NInt 5) = Inr (NInt 24) \<and> int (fact 5) = 120"
  by (simp add: Factorial_def Number_Int_def CompareNumbers_def exact_value_def NewNumberInt_def
      NewNumberBig_def Number_Float_def go_int_def Factorial_loop.simps fact_numeral)

end
